theory Spec2Isabelle
  imports Complex_Main
begin

section \<open>Asteroid brightness fitting: the kernels of cuda.c\<close>

text \<open>
  The development embeds the device functions of \<^verbatim>\<open>cuda.c\<close> in the default build
  (none of TORQUE, TORQUE2, SEGMENT, NUDGE, MIN_DV, ROTATE, INTERP, BC, BW_BALL, RECT,
  TREND, P_PHI, P_PSI, P_BOTH defined; one data segment).  The C types \<^verbatim>\<open>double\<close>,
  \<^verbatim>\<open>float\<close>, \<^verbatim>\<open>CHI_FLOAT\<close> and \<^verbatim>\<open>OBS_TYPE\<close> are read as the reals: rounding,
  infinities and NaN are outside the model.  Where the C code divides, the statements below
  say when the divisor is non-zero.

  The header that declares the macros used by \<^verbatim>\<open>cuda.c\<close> (parameter type codes, boundary
  class codes, \<^verbatim>\<open>TIME_STEP\<close>, \<^verbatim>\<open>MAX_MINIMA\<close>, \<^verbatim>\<open>HUGE\<close>, the simplex coefficients) is
  not part of the sources at hand, so these constants are collected in a record that every
  function takes as its first argument.
\<close>

record macros =
  T_c_tumb :: int
  T_b_tumb :: int
  T_Es :: int
  T_psi_0 :: int
  T_theta_M :: int
  T_phi_M :: int
  T_phi_0 :: int
  T_L :: int
  PERIODIC :: int
  HARD_BOTH :: int
  HARD_LEFT :: int
  HARD_RIGHT :: int
  PERIODIC_LAM :: int
  TIME_STEP :: real
  MAX_MINIMA :: int
  MINIMA_TEST :: bool
  HUGE :: real
  SIZE2_MIN :: real
  N_STEPS :: int
  ALPHA_SIM :: real
  GAMMA_SIM :: real
  RHO_SIM :: real
  SIGMA_SIM :: real

text \<open>\<^verbatim>\<open>const int N_PARAMS = 7\<close> (asteroid.h).\<close>

definition N_PARAMS :: nat where
  "N_PARAMS = 7"

text \<open>\<^verbatim>\<open>#define PI 3.141592653589793238L\<close> is read as the real number pi.\<close>

definition PI :: real where
  "PI = pi"

text \<open>Conversion of a floating value to \<^verbatim>\<open>int\<close> in C truncates toward zero.\<close>

definition c_int_of_real :: "real \<Rightarrow> int" where
  "c_int_of_real v = (if 0 \<le> v then \<lfloor>v\<rfloor> else \<lceil>v\<rceil>)"

subsection \<open>ODE\_func and the RK4 integration of chi2one\<close>

type_synonym vec3 = "real \<times> real \<times> real"

text \<open>
  The torque-free right-hand side: \<open>y = (phi, theta, psi)\<close>, \<open>mu = (L, Ip, Im)\<close>.
\<close>

fun ODE_func :: "vec3 \<Rightarrow> vec3 \<Rightarrow> vec3" where
  "ODE_func (y0, y1, y2) (mu0, mu1, mu2) =
     (let f0 = mu0 * (mu1 - mu2 * cos (2 * y2));
          f1 = mu0 * mu2 * sin y1 * sin (2 * y2);
          f2 = cos y1 * (mu0 - f0)
      in (f0, f1, f2))"

fun axpy :: "real \<Rightarrow> vec3 \<Rightarrow> vec3 \<Rightarrow> vec3" where
  "axpy s (k0, k1, k2) (y0, y1, y2) = (y0 + s * k0, y1 + s * k1, y2 + s * k2)"

text \<open>One pass of the body of the loop \<^verbatim>\<open>for (l=0; l<N_steps; l++)\<close>.\<close>

definition rk4_step :: "real \<Rightarrow> vec3 \<Rightarrow> vec3 \<Rightarrow> vec3" where
  "rk4_step h mu y =
     (let K1 = ODE_func y mu;
          K2 = ODE_func (axpy (0.5 * h) K1 y) mu;
          K3 = ODE_func (axpy (0.5 * h) K2 y) mu;
          K4 = ODE_func (axpy h K3 y) mu
      in (case (K1, K2, K3, K4, y) of
            ((a0, a1, a2), (b0, b1, b2), (c0, c1, c2), (d0, d1, d2), (y0, y1, y2)) \<Rightarrow>
              (y0 + 1 / 6 * h * (a0 + 2 * b0 + 2 * c0 + d0),
               y1 + 1 / 6 * h * (a1 + 2 * b1 + 2 * c1 + d1),
               y2 + 1 / 6 * h * (a2 + 2 * b2 + 2 * c2 + d2))))"

text \<open>\<^verbatim>\<open>N_steps = (t2 - t1) / TIME_STEP + 1;\<close> assigned to an \<^verbatim>\<open>int\<close>.\<close>

definition N_steps_of :: "macros \<Rightarrow> real \<Rightarrow> real \<Rightarrow> int" where
  "N_steps_of mc t1 t2 = c_int_of_real ((t2 - t1) / TIME_STEP mc + 1)"

text \<open>\<^verbatim>\<open>h = (t2 - t1) / N_steps;\<close>\<close>

definition step_h :: "macros \<Rightarrow> real \<Rightarrow> real \<Rightarrow> real" where
  "step_h mc t1 t2 = (t2 - t1) / real_of_int (N_steps_of mc t1 t2)"

text \<open>
  The integration from epoch \<open>t1\<close> to epoch \<open>t2\<close>: the loop runs \<open>N_steps\<close> times
  (not at all when \<open>N_steps \<le> 0\<close>), every pass with the same step \<open>h\<close>.
\<close>

definition rk4_integrate :: "macros \<Rightarrow> vec3 \<Rightarrow> real \<Rightarrow> real \<Rightarrow> vec3 \<Rightarrow> vec3" where
  "rk4_integrate mc mu t1 t2 y =
     ((rk4_step (step_h mc t1 t2) mu) ^^ (nat (N_steps_of mc t1 t2))) y"

subsection \<open>Orientation geometry of chi2one\<close>

text \<open>
  The angular momentum direction, a unit vector given by the parameters
  \<open>theta_M\<close> and \<open>phi_M\<close> (cuda.c, lines 191 to 193).
\<close>

definition M_vec :: "real \<Rightarrow> real \<Rightarrow> vec3" where
  "M_vec theta_M phi_M =
     (sin theta_M * cos phi_M, sin theta_M * sin phi_M, cos theta_M)"

text \<open>The divisor \<^verbatim>\<open>XM = sqrt(M_z*M_z+M_x*M_x)\<close> (line 198).\<close>

fun XM_len :: "vec3 \<Rightarrow> real" where
  "XM_len (M_x, M_y, M_z) = sqrt (M_z * M_z + M_x * M_x)"

text \<open>
  The time-independent axes \<open>XM = (XM_x, 0, XM_z)\<close> and \<open>YM\<close> (lines 198 to 205); the
  code does not store the component \<open>XM_y = 0\<close>.
\<close>

definition inertial_frame :: "vec3 \<Rightarrow> real \<times> real \<times> vec3" where
  "inertial_frame M =
     (case M of (M_x, M_y, M_z) \<Rightarrow>
        let XM = sqrt (M_z * M_z + M_x * M_x);
            XM_x = M_z / XM;
            XM_z = - M_x / XM;
            YM_x = M_y * XM_z;
            YM_y = M_z * XM_x - M_x * XM_z;
            YM_z = - M_y * XM_x
        in (XM_x, XM_z, (YM_x, YM_y, YM_z)))"

text \<open>
  The body axes \<open>a\<close>, \<open>b\<close>, \<open>c\<close> for the Euler angles \<open>phi\<close>, \<open>theta\<close>, \<open>psi\<close>
  (lines 390 to 431).  The result is the triple \<open>(a, b, c)\<close>.
\<close>

definition body_axes :: "vec3 \<Rightarrow> real \<times> real \<times> vec3 \<Rightarrow> vec3 \<Rightarrow> vec3 \<times> vec3 \<times> vec3" where
  "body_axes M F E =
     (case (M, F, E) of
        ((M_x, M_y, M_z), (XM_x, XM_z, (YM_x, YM_y, YM_z)), (phi, theta, psi)) \<Rightarrow>
        let cos_phi = cos phi;
            sin_phi = sin phi;
            N_x = XM_x * cos_phi + YM_x * sin_phi;
            N_y = YM_y * sin_phi;
            N_z = XM_z * cos_phi + YM_z * sin_phi;
            p_x = N_y * M_z - N_z * M_y;
            p_y = N_z * M_x - N_x * M_z;
            p_z = N_x * M_y - N_y * M_x;
            cos_theta = cos theta;
            sin_theta = sin theta;
            a_x = M_x * cos_theta + p_x * sin_theta;
            a_y = M_y * cos_theta + p_y * sin_theta;
            a_z = M_z * cos_theta + p_z * sin_theta;
            w_x = a_y * N_z - a_z * N_y;
            w_y = a_z * N_x - a_x * N_z;
            w_z = a_x * N_y - a_y * N_x;
            sin_psi = sin psi;
            cos_psi = cos psi;
            b_x = N_x * cos_psi + w_x * sin_psi;
            b_y = N_y * cos_psi + w_y * sin_psi;
            b_z = N_z * cos_psi + w_z * sin_psi;
            c_x = a_y * b_z - a_z * b_y;
            c_y = a_z * b_x - a_x * b_z;
            c_z = a_x * b_y - a_y * b_x
        in ((a_x, a_y, a_z), (b_x, b_y, b_z), (c_x, c_y, c_z)))"

text \<open>Scalar and vector product, used to state properties of the axes.\<close>

fun dot :: "vec3 \<Rightarrow> vec3 \<Rightarrow> real" where
  "dot (u1, u2, u3) (v1, v2, v3) = u1 * v1 + u2 * v2 + u3 * v3"

fun cross :: "vec3 \<Rightarrow> vec3 \<Rightarrow> vec3" where
  "cross (u1, u2, u3) (v1, v2, v3) =
     (u2 * v3 - u3 * v2, u3 * v1 - u1 * v3, u1 * v2 - u2 * v1)"

text \<open>\<open>u\<close> turned towards \<open>v\<close> by the angle \<open>t\<close>.\<close>

fun rot :: "vec3 \<Rightarrow> vec3 \<Rightarrow> real \<Rightarrow> vec3" where
  "rot (u1, u2, u3) (v1, v2, v3) t =
     (u1 * cos t + v1 * sin t, u2 * cos t + v2 * sin t, u3 * cos t + v3 * sin t)"

definition orthonormal :: "vec3 \<Rightarrow> vec3 \<Rightarrow> vec3 \<Rightarrow> bool" where
  "orthonormal a b c \<longleftrightarrow>
     dot a a = 1 \<and> dot b b = 1 \<and> dot c c = 1 \<and> dot a b = 0 \<and> dot a c = 0 \<and> dot b c = 0"

subsection \<open>The tables of the parameters\<close>

text \<open>
  \<^verbatim>\<open>sLimits[r][t]\<close> is \<open>sLimits r t\<close> and \<^verbatim>\<open>sTypes[t][iseg]\<close> is \<open>sTypes t iseg\<close>.
\<close>

type_synonym limits = "int \<Rightarrow> int \<Rightarrow> real"
type_synonym stypes = "int \<Rightarrow> int \<Rightarrow> nat"

subsection \<open>chi2one: the fit statistic of one parameter vector\<close>

text \<open>
  One element of the observational data (\<^verbatim>\<open>struct obs_data\<close> of asteroid.h); the field
  \<open>obsV\<close> is the member \<^verbatim>\<open>V\<close>, and so on.
\<close>

record obs_data =
  obsV :: real
  obsw :: real
  obsE_x :: real
  obsE_y :: real
  obsE_z :: real
  obsS_x :: real
  obsS_y :: real
  obsS_z :: real
  obsMJD :: real
  obsFilter :: int

text \<open>The C library functions \<^verbatim>\<open>atan2\<close> and \<^verbatim>\<open>log10\<close> on the reals.\<close>

definition atan2 :: "real \<Rightarrow> real \<Rightarrow> real" where
  "atan2 y x =
     (if x > 0 then arctan (y / x)
      else if x < 0 then (if y \<ge> 0 then arctan (y / x) + pi else arctan (y / x) - pi)
      else if y > 0 then pi / 2
      else if y < 0 then - pi / 2
      else 0)"

definition log10 :: "real \<Rightarrow> real" where
  "log10 v = log 10 v"

text \<open>
  The model magnitude \<open>Vmod\<close> of one data point (lines 512 to 630, default brightness
  model): the Earth and Sun vectors are projected on the body axes \<open>b\<close>, \<open>c\<close>, \<open>a\<close>, and
  the brightness of the triaxial ellipsoid with the semi-axes \<open>1\<close>, \<open>b\<close>, \<open>c\<close> follows.
\<close>

definition Vmod_of :: "real \<Rightarrow> real \<Rightarrow> vec3 \<times> vec3 \<times> vec3 \<Rightarrow> obs_data \<Rightarrow> real" where
  "Vmod_of b c axes d =
     (case axes of ((a_x, a_y, a_z), (b_x, b_y, b_z), (c_x, c_y, c_z)) \<Rightarrow>
      let Ep_x = b_x * obsE_x d + b_y * obsE_y d + b_z * obsE_z d;
          Ep_y = c_x * obsE_x d + c_y * obsE_y d + c_z * obsE_z d;
          Ep_z = a_x * obsE_x d + a_y * obsE_y d + a_z * obsE_z d;
          Sp_x = b_x * obsS_x d + b_y * obsS_y d + b_z * obsS_z d;
          Sp_y = c_x * obsS_x d + c_y * obsS_y d + c_z * obsS_z d;
          Sp_z = a_x * obsS_x d + a_y * obsS_y d + a_z * obsS_z d;
          scalar_Sun = sqrt (Sp_x * Sp_x / (b * b) + Sp_y * Sp_y / (c * c) + Sp_z * Sp_z);
          scalar_Earth = sqrt (Ep_x * Ep_x / (b * b) + Ep_y * Ep_y / (c * c) + Ep_z * Ep_z);
          cos_alpha_p = (Sp_x * Ep_x / (b * b) + Sp_y * Ep_y / (c * c) + Sp_z * Ep_z)
                          / (scalar_Sun * scalar_Earth);
          sin_alpha_p = sqrt (1 - cos_alpha_p * cos_alpha_p);
          alpha_p = atan2 sin_alpha_p cos_alpha_p;
          scalar = sqrt (scalar_Sun * scalar_Sun + scalar_Earth * scalar_Earth
                           + 2 * scalar_Sun * scalar_Earth * cos_alpha_p);
          cos_lambda_p = (scalar_Sun + scalar_Earth * cos_alpha_p) / scalar;
          sin_lambda_p = scalar_Earth * sin_alpha_p / scalar;
          lambda_p = atan2 sin_lambda_p cos_lambda_p
      in - 2.5 * log10 (b * c * scalar_Sun * scalar_Earth / scalar
             * (cos (lambda_p - alpha_p) + cos_lambda_p
                + sin_lambda_p * sin (lambda_p - alpha_p)
                  * ln (1 / tan (0.5 * lambda_p) / tan (0.5 * (alpha_p - lambda_p))))))"

text \<open>
  The quantities of \<^verbatim>\<open>chi2one\<close> that do not change in the loop over the data points
  (lines 191 to 247): the momentum direction \<open>M\<close>, the frame \<open>XM\<close>, \<open>YM\<close>, the axes
  \<open>b\<close>, \<open>c\<close>, the ODE parameters \<open>mu\<close> and the initial Euler angles.
\<close>

record chi2_consts =
  cM :: vec3
  cF :: "real \<times> real \<times> vec3"
  cb :: real
  cc :: real
  cmu :: vec3
  cE0 :: vec3

definition chi2_setup :: "macros \<Rightarrow> real list \<Rightarrow> stypes \<Rightarrow> chi2_consts" where
  "chi2_setup mc params sTypes =
     (let P = (\<lambda>t. params ! sTypes t 0);
          M = M_vec (P (T_theta_M mc)) (P (T_phi_M mc));
          Is' = (1 + P (T_b_tumb mc) * P (T_b_tumb mc))
                 / (P (T_b_tumb mc) * P (T_b_tumb mc) + P (T_c_tumb mc) * P (T_c_tumb mc));
          Ii' = (1 + P (T_c_tumb mc) * P (T_c_tumb mc))
                 / (P (T_b_tumb mc) * P (T_b_tumb mc) + P (T_c_tumb mc) * P (T_c_tumb mc));
          Is_inv = 1 / Is';
          Ii_inv = 1 / Ii';
          phi = P (T_phi_0 mc);
          theta = arcsin (sqrt ((P (T_Es mc) - 1)
                    / (sin (P (T_psi_0 mc)) * sin (P (T_psi_0 mc)) * (Ii_inv - Is_inv) + Is_inv - 1)));
          psi = P (T_psi_0 mc);
          Ip = 0.5 * (Ii_inv + Is_inv);
          Im = 0.5 * (Ii_inv - Is_inv)
      in \<lparr> cM = M, cF = inertial_frame M, cb = P (T_b_tumb mc), cc = P (T_c_tumb mc),
           cmu = (P (T_L mc), Ip, Im), cE0 = (phi, theta, psi) \<rparr>)"

text \<open>
  The variables that the loop over the data points changes: the sums of the filters, the
  buffer \<open>d_Vmod\<close>, and in the build with \<^verbatim>\<open>MINIMA_TEST\<close> the recorded minima \<open>Vmin\<close>
  (their number \<open>N_minima\<close> is the length of the list) and the last two points \<open>t_old\<close>,
  \<open>V_old\<close>.  The field \<open>early\<close> holds the value of a \<^verbatim>\<open>return\<close> inside the loop.
\<close>

record chi2_vars =
  sum_y2 :: "real list"
  sum_y :: "real list"
  sum_w :: "real list"
  d_Vmod :: "real list"
  Vmin :: "real list"
  t_old :: "real \<times> real"
  V_old :: "real \<times> real"
  early :: "real option"

text \<open>The time intervals covered by observations (lines 721 to 726).\<close>

definition covered :: "real \<Rightarrow> bool" where
  "covered t \<longleftrightarrow>
     t \<ge> 58051.044624 \<and> t \<le> 58051.117754 \<or>
     t \<ge> 58051.977665 \<and> t \<le> 58052.185066 \<or>
     t \<ge> 58053.078873 \<and> t \<le> 58053.528586 \<or>
     t \<ge> 58054.093274 \<and> t \<le> 58054.514202 \<or>
     t \<ge> 58055.234145 \<and> t \<le> 58055.354832 \<or>
     t \<ge> 58056.181290 \<and> t \<le> 58056.278901"

text \<open>
  The search for minima at data point \<open>i\<close> with model magnitude \<open>Vmod\<close> (lines 707 to 739).
  The arrays \<open>t_old\<close> and \<open>V_old\<close> are written at the points 0 and 1 before they are read.
\<close>

definition track_minimum :: "macros \<Rightarrow> real \<Rightarrow> obs_data \<Rightarrow> nat \<Rightarrow> real \<Rightarrow> chi2_vars \<Rightarrow> chi2_vars" where
  "track_minimum mc delta_V0 d i Vmod st =
     (if i < 2 then
        (if i = 0 then st\<lparr>t_old := (obsMJD d, snd (t_old st)), V_old := (Vmod, snd (V_old st))\<rparr>
         else st\<lparr>t_old := (fst (t_old st), obsMJD d), V_old := (fst (V_old st), Vmod)\<rparr>)
      else
        (let shifted = (\<lambda>s. s\<lparr>t_old := (snd (t_old st), obsMJD d),
                                 V_old := (snd (V_old st), Vmod)\<rparr>)
         in if snd (V_old st) > fst (V_old st) \<and> snd (V_old st) \<ge> Vmod
               \<and> covered (58051.044624 + snd (t_old st))
            then (if int (length (Vmin st)) + 1 > MAX_MINIMA mc
                  then st\<lparr>early := Some (- 1)\<rparr>
                  else shifted (st\<lparr>Vmin := Vmin st @ [snd (V_old st) + delta_V0]\<rparr>))
            else shifted st))"

text \<open>
  The part of the loop body after the model magnitude is known (lines 640 to 741):
  in fit mode (\<open>Nplot \<le> 0\<close>) the sums of the filter of the point are updated; otherwise
  the magnitude goes to \<open>d_Vmod\<close>, or in the build with \<^verbatim>\<open>MINIMA_TEST\<close> to the search
  for minima.  A filter code outside \<open>0, ..., N_filters - 1\<close> addresses a cell that is
  never read afterwards; the model leaves the sums unchanged then.
\<close>

definition use_magnitude :: "macros \<Rightarrow> int \<Rightarrow> real list \<Rightarrow> obs_data \<Rightarrow> nat \<Rightarrow> real \<Rightarrow> chi2_vars \<Rightarrow> chi2_vars" where
  "use_magnitude mc Nplot delta_V d i Vmod st =
     (if Nplot > 0 then
        (if MINIMA_TEST mc then track_minimum mc (delta_V ! 0) d i Vmod st
         else st\<lparr>d_Vmod := (d_Vmod st)[i := Vmod + delta_V ! 0]\<rparr>)
      else
        (let m = obsFilter d;
             y = obsV d - Vmod
         in if 0 \<le> m \<and> nat m < length (sum_w st) then
              st\<lparr>sum_y2 := (sum_y2 st)[nat m := sum_y2 st ! nat m + y * y * obsw d],
                 sum_y := (sum_y st)[nat m := sum_y st ! nat m + y * obsw d],
                 sum_w := (sum_w st)[nat m := sum_w st ! nat m + obsw d]\<rparr>
            else st))"

text \<open>
  The body of the loop over the data points (lines 268 to 751): the Euler angles are
  integrated from the previous point (\<open>euler_step\<close>, not for the first point), the model
  magnitude is computed and used.  After a \<^verbatim>\<open>return\<close> nothing more happens.
\<close>

definition euler_step :: "macros \<Rightarrow> chi2_consts \<Rightarrow> obs_data list \<Rightarrow> nat \<Rightarrow> vec3 \<Rightarrow> vec3" where
  "euler_step mc k sData i E =
     (if i > 0
      then rk4_integrate mc (cmu k) (obsMJD (sData ! (i - 1))) (obsMJD (sData ! i)) E
      else E)"

definition data_point :: "macros \<Rightarrow> chi2_consts \<Rightarrow> int \<Rightarrow> real list \<Rightarrow> obs_data list \<Rightarrow> nat
    \<Rightarrow> vec3 \<times> chi2_vars \<Rightarrow> vec3 \<times> chi2_vars" where
  "data_point mc k Nplot delta_V sData i s =
     (case s of (E, st) \<Rightarrow>
        if early st \<noteq> None then (E, st)
        else
          let E' = euler_step mc k sData i E;
              Vmod = Vmod_of (cb k) (cc k) (body_axes (cM k) (cF k) E') (sData ! i)
          in (E', use_magnitude mc Nplot delta_V (sData ! i) i Vmod st))"

text \<open>The scan for the deepest remaining minimum (lines 770 to 779).\<close>

definition deepest_step :: "real list \<Rightarrow> nat \<Rightarrow> real \<times> int \<Rightarrow> real \<times> int" where
  "deepest_step vmin k s =
     (case s of (Vmax, kmax) \<Rightarrow> if vmin ! k > Vmax then (vmin ! k, int k) else (Vmax, kmax))"

definition deepest :: "real list \<Rightarrow> real \<times> int" where
  "deepest vmin = fold (deepest_step vmin) [0..<length vmin] (- (10 ^ 30), - 1)"

text \<open>
  The loop that collects the \<open>n\<close> deepest minima in \<open>Vbest\<close> (lines 768 to 784);
  \<open>None\<close> stands for the \<^verbatim>\<open>return -1\<close> of the case \<open>kmax == -1\<close>.
\<close>

fun collect_best :: "nat \<Rightarrow> real list \<Rightarrow> real list \<Rightarrow> real list option" where
  "collect_best 0 vmin Vbest = Some Vbest"
| "collect_best (Suc n) vmin Vbest =
     (case deepest vmin of (Vmax, kmax) \<Rightarrow>
        if kmax = - 1 then None
        else collect_best n (vmin[nat kmax := - 2 * 10 ^ 30]) (Vbest @ [Vmax]))"

text \<open>The depths of the observed minima that the score compares with (lines 791 to 815).\<close>

definition observed_depths :: "real list" where
  "observed_depths = [25.715, 25.254, 25.234, 25.212, 24.940, 24.846, 24.834]"

text \<open>The score: one point for every ranked model minimum as deep as the observed one.\<close>

fun score_chain :: "real list \<Rightarrow> real list \<Rightarrow> int" where
  "score_chain (v # vs) (t # ts) = (if v \<ge> t then 1 else 0) + score_chain vs ts"
| "score_chain vs ts = 0"

text \<open>The end of \<^verbatim>\<open>chi2one\<close> in minima mode (lines 759 to 820).\<close>

definition minima_score :: "real list \<Rightarrow> real" where
  "minima_score vmin =
     (if length vmin = 0 then 0
      else case collect_best (min 7 (length vmin)) vmin [] of
             None \<Rightarrow> - 1
           | Some Vbest \<Rightarrow> real_of_int (score_chain Vbest observed_depths))"

text \<open>The loop over the filters at the end of fit mode (lines 830 to 838).\<close>

definition filter_step :: "chi2_vars \<Rightarrow> nat \<Rightarrow> real \<times> real list \<Rightarrow> real \<times> real list" where
  "filter_step st m s =
     (case s of (chi2a, delta_V) \<Rightarrow>
        let chi2m = sum_y2 st ! m - sum_y st ! m * sum_y st ! m / sum_w st ! m
        in (chi2a + chi2m, delta_V[m := sum_y st ! m / sum_w st ! m]))"

text \<open>
  What \<^verbatim>\<open>chi2one\<close> returns once the loop over the data points has ended in the state
  \<open>st\<close> (lines 758 to 840): the return value, and the arrays \<open>delta_V\<close> and \<open>d_Vmod\<close>.
\<close>

definition chi2_finish :: "macros \<Rightarrow> int \<Rightarrow> int \<Rightarrow> int \<Rightarrow> real list \<Rightarrow> chi2_vars
    \<Rightarrow> real \<times> real list \<times> real list" where
  "chi2_finish mc N_data N_filters Nplot delta_V st =
     (case early st of
        Some r \<Rightarrow> (r, delta_V, d_Vmod st)
      | None \<Rightarrow>
          if MINIMA_TEST mc \<and> Nplot > 0 then (minima_score (Vmin st), delta_V, d_Vmod st)
          else if Nplot > 0 then (0, delta_V, d_Vmod st)
          else (case fold (filter_step st) [0..<nat N_filters] (0, delta_V) of
                  (chi2a, delta_V') \<Rightarrow>
                    (chi2a / real_of_int (N_data - int N_PARAMS - N_filters), delta_V', d_Vmod st)))"

text \<open>The state of the variables before the loop (lines 93 to 98 and 151).\<close>

definition chi2_init :: "int \<Rightarrow> real list \<Rightarrow> chi2_vars" where
  "chi2_init N_filters d_Vmod0 =
     \<lparr> sum_y2 = replicate (nat N_filters) 0, sum_y = replicate (nat N_filters) 0,
       sum_w = replicate (nat N_filters) 0, d_Vmod = d_Vmod0, Vmin = [],
       t_old = (0, 0), V_old = (0, 0), early = None \<rparr>"

text \<open>
  \<^verbatim>\<open>chi2one\<close>.  The last argument is the content of the global buffer \<open>d_Vmod\<close> before
  the call; the result is the return value with the arrays \<open>delta_V\<close> and \<open>d_Vmod\<close>
  after the call.
\<close>

definition chi2one :: "macros \<Rightarrow> real list \<Rightarrow> obs_data list \<Rightarrow> int \<Rightarrow> int \<Rightarrow> real list \<Rightarrow> int \<Rightarrow> stypes
    \<Rightarrow> real list \<Rightarrow> real \<times> real list \<times> real list" where
  "chi2one mc params sData N_data N_filters delta_V Nplot sTypes d_Vmod0 =
     (let k = chi2_setup mc params sTypes;
          s = fold (data_point mc k Nplot delta_V sData) [0..<nat N_data]
                (cE0 k, chi2_init N_filters d_Vmod0)
      in chi2_finish mc N_data N_filters Nplot delta_V (snd s))"

text \<open>
  The Euler angles and the model magnitude at the data point \<open>i\<close>, as the loop of
  \<^verbatim>\<open>chi2one\<close> computes them when it reaches the point.
\<close>

fun euler_at :: "macros \<Rightarrow> chi2_consts \<Rightarrow> obs_data list \<Rightarrow> nat \<Rightarrow> vec3" where
  "euler_at mc k sData 0 = cE0 k"
| "euler_at mc k sData (Suc i) =
     rk4_integrate mc (cmu k) (obsMJD (sData ! i)) (obsMJD (sData ! Suc i)) (euler_at mc k sData i)"

definition Vmod_at :: "macros \<Rightarrow> chi2_consts \<Rightarrow> obs_data list \<Rightarrow> nat \<Rightarrow> real" where
  "Vmod_at mc k sData i =
     Vmod_of (cb k) (cc k) (body_axes (cM k) (cF k) (euler_at mc k sData i)) (sData ! i)"

text \<open>
  The loop and the end of \<^verbatim>\<open>chi2one\<close> for given model magnitudes \<open>mags\<close> of the data
  points.
\<close>

definition chi2_of_magnitudes :: "macros \<Rightarrow> obs_data list \<Rightarrow> int \<Rightarrow> int \<Rightarrow> real list \<Rightarrow> int
    \<Rightarrow> real list \<Rightarrow> (nat \<Rightarrow> real) \<Rightarrow> real \<times> real list \<times> real list" where
  "chi2_of_magnitudes mc sData N_data N_filters delta_V Nplot d_Vmod0 mags =
     chi2_finish mc N_data N_filters Nplot delta_V
       (fold (\<lambda>i st. if early st \<noteq> None then st
                      else use_magnitude mc Nplot delta_V (sData ! i) i (mags i) st)
          [0..<nat N_data] (chi2_init N_filters d_Vmod0))"

subsection \<open>The parameter codec: params2x and x2params\<close>

text \<open>
  One row of the table \<^verbatim>\<open>sProperty\<close>; the fields are the columns \<^verbatim>\<open>P_type\<close>,
  \<^verbatim>\<open>P_independent\<close>, \<^verbatim>\<open>P_frozen\<close>, \<^verbatim>\<open>P_iseg\<close> and \<^verbatim>\<open>P_periodic\<close>.
\<close>

record prow =
  P_type :: int
  P_independent :: int
  P_frozen :: int
  P_iseg :: int
  P_periodic :: int

text \<open>The moments of inertia \<open>Is\<close> and \<open>Ii\<close> of the axes \<open>b_tumb\<close>, \<open>c_tumb\<close>.\<close>

definition Is_of :: "real \<Rightarrow> real \<Rightarrow> real" where
  "Is_of b_tumb c_tumb = (1 + b_tumb * b_tumb) / (b_tumb * b_tumb + c_tumb * c_tumb)"

definition Ii_of :: "real \<Rightarrow> real \<Rightarrow> real" where
  "Ii_of b_tumb c_tumb = (1 + c_tumb * c_tumb) / (b_tumb * b_tumb + c_tumb * c_tumb)"

text \<open>
  The body of the loop of \<^verbatim>\<open>params2x\<close> for the slot \<open>i\<close> (lines 962 to 1041).  The
  state is the array \<open>x\<close> and the locals \<open>LAM\<close> and \<open>i_Es\<close>, which the code sets in the
  slot of type \<open>T_Es\<close> and reads in the slot of type \<open>T_psi_0\<close>.
\<close>

definition params2x_slot :: "macros \<Rightarrow> limits \<Rightarrow> prow list \<Rightarrow> real list \<Rightarrow> real \<Rightarrow> real \<Rightarrow> real \<Rightarrow> real
    \<Rightarrow> nat \<Rightarrow> real list \<times> bool \<times> nat \<Rightarrow> real list \<times> bool \<times> nat" where
  "params2x_slot mc sLimits sProperty params b_tumb c_tumb Is Ii i s =
     (case s of (x, LAM, i_Es) \<Rightarrow>
      let row = sProperty ! i;
          param_type = P_type row;
          lo = sLimits 0 param_type;
          hi = sLimits 1 param_type
      in if P_frozen row \<noteq> 0 then (x[i := 0], LAM, i_Es)
         else if P_independent row = 1 then
           (let par = params ! i
            in if P_periodic row = 1 then
                 (let xi = par / (2 * PI) in (x[i := xi - real_of_int \<lfloor>xi\<rfloor>], LAM, i_Es))
               else
                 (let par' = (if param_type = T_c_tumb mc then ln par else par)
                  in (x[i := (par' - lo) / (hi - lo)], LAM, i_Es)))
         else if param_type = T_b_tumb mc then
           (let par = ln b_tumb / ln c_tumb in (x[i := (par - lo) / (hi - lo)], LAM, i_Es))
         else if param_type = T_Es mc then
           (let LAM' = (params ! i > 1 / Ii)
            in if LAM' then (x[i := 0.5 * ((params ! i - 1 / Ii) / (1 - 1 / Ii) + 1)], LAM', i)
               else (x[i := 0.5 * (params ! i - 1 / Is) / (1 / Ii - 1 / Is)], LAM', i))
         else if param_type = T_psi_0 mc then
           (let psi_max = (if LAM then 2 * PI
                           else arctan (sqrt (Ii * (Is - 1 / params ! i_Es) / Is
                                               / (1 / params ! i_Es - Ii))));
                psi_min = (if LAM then 0 else - psi_max)
            in (x[i := (params ! i - psi_min) / (psi_max - psi_min)], LAM, i_Es))
         else (x, LAM, i_Es))"

text \<open>
  \<^verbatim>\<open>params2x\<close>: the new content of the array \<open>x\<close>.  The arguments \<open>LAM0\<close> and
  \<open>i_Es0\<close> stand for the indeterminate initial values of the locals \<open>LAM\<close> and \<open>i_Es\<close>.
\<close>

definition params2x :: "macros \<Rightarrow> limits \<Rightarrow> prow list \<Rightarrow> stypes \<Rightarrow> real list \<Rightarrow> real list \<Rightarrow> bool \<Rightarrow> nat
    \<Rightarrow> real list" where
  "params2x mc sLimits sProperty sTypes x params LAM0 i_Es0 =
     (let b_tumb = params ! sTypes (T_b_tumb mc) 0;
          c_tumb = params ! sTypes (T_c_tumb mc) 0;
          Is = Is_of b_tumb c_tumb;
          Ii = Ii_of b_tumb c_tumb
      in fst (fold (params2x_slot mc sLimits sProperty params b_tumb c_tumb Is Ii)
                [0..<N_PARAMS] (x, LAM0, i_Es0)))"

text \<open>
  The test of \<^verbatim>\<open>x2params\<close> on one coordinate (lines 1069 and 1070): the coordinate is
  outside a hard limit of its boundary class.
\<close>

definition breach :: "macros \<Rightarrow> prow \<Rightarrow> bool \<Rightarrow> real \<Rightarrow> bool" where
  "breach mc row LAM xi \<longleftrightarrow>
     xi < 0 \<and> (P_periodic row = HARD_BOTH mc \<or> P_periodic row = HARD_LEFT mc
               \<or> \<not> LAM \<and> P_periodic row = PERIODIC_LAM mc)
   \<or> xi > 1 \<and> (P_periodic row = HARD_BOTH mc \<or> P_periodic row = HARD_RIGHT mc
               \<or> \<not> LAM \<and> P_periodic row = PERIODIC_LAM mc)"

text \<open>
  The first loop of \<^verbatim>\<open>x2params\<close> (lines 1058 to 1075) from slot \<open>i\<close> on, with \<open>k\<close>
  slots left: the result says whether the function returns 1 there, and gives the flag
  \<open>LAM\<close> at the end.
\<close>

fun check_from :: "macros \<Rightarrow> prow list \<Rightarrow> real list \<Rightarrow> nat \<Rightarrow> nat \<Rightarrow> bool \<Rightarrow> bool \<times> bool" where
  "check_from mc sProperty x 0 i LAM = (False, LAM)"
| "check_from mc sProperty x (Suc k) i LAM =
     (let LAM' = (if P_type (sProperty ! i) = T_Es mc then x ! i \<ge> 0.5 else LAM)
      in if breach mc (sProperty ! i) LAM' (x ! i) then (True, LAM')
         else check_from mc sProperty x k (Suc i) LAM')"

text \<open>The locals of \<^verbatim>\<open>x2params\<close> that live across the slots of the second loop.\<close>

record x2_locals =
  log_c_tumb :: real
  log_b_tumb :: real
  Is :: real
  Ii :: real
  psi_min :: real
  psi_max :: real

text \<open>
  The body of the second loop of \<^verbatim>\<open>x2params\<close> for the slot \<open>i\<close> (lines 1085 to 1238),
  in the default build, where the branch for \<open>T_L\<close> is empty.
\<close>

definition x2params_slot :: "macros \<Rightarrow> limits \<Rightarrow> prow list \<Rightarrow> stypes \<Rightarrow> bool \<Rightarrow> real list
    \<Rightarrow> nat \<Rightarrow> real list \<times> x2_locals \<Rightarrow> real list \<times> x2_locals" where
  "x2params_slot mc sLimits sProperty sTypes LAM x i s =
     (case s of (params, loc) \<Rightarrow>
      let row = sProperty ! i;
          param_type = P_type row;
          iseg = P_iseg row;
          lo = sLimits 0 param_type;
          hi = sLimits 1 param_type
      in if param_type = T_b_tumb mc then
           (let lb = log_c_tumb loc * (x ! i * (hi - lo) + lo);
                params' = params[i := exp lb];
                b_tumb = params' ! i;
                c_tumb = params' ! sTypes (T_c_tumb mc) iseg
            in (params', loc\<lparr>log_b_tumb := lb, Is := Is_of b_tumb c_tumb, Ii := Ii_of b_tumb c_tumb\<rparr>))
         else if param_type = T_Es mc then
           (if LAM then
              (params[i := 2 * (x ! i - 0.5) * (1 - 1 / Ii loc) + 1 / Ii loc],
               loc\<lparr>psi_min := 0, psi_max := 2 * PI\<rparr>)
            else
              (let Es = 2 * x ! i * (1 / Ii loc - 1 / Is loc) + 1 / Is loc;
                   pmax = arctan (sqrt (Ii loc * (Is loc - 1 / Es) / Is loc / (1 / Es - Ii loc)))
               in (params[i := Es], loc\<lparr>psi_min := - pmax, psi_max := pmax\<rparr>)))
         else if param_type = T_psi_0 mc then
           (params[i := x ! i * (psi_max loc - psi_min loc) + psi_min loc], loc)
         else if P_periodic row = PERIODIC mc then
           (params[i := x ! i * 2 * PI], loc)
         else if P_periodic row \<noteq> PERIODIC mc \<and> P_independent row = 1 then
           (let v = x ! i * (hi - lo) + lo
            in if param_type = T_c_tumb mc then (params[i := exp v], loc\<lparr>log_c_tumb := v\<rparr>)
               else (params[i := v], loc))
         else (params, loc))"

text \<open>
  \<^verbatim>\<open>x2params\<close>: the return code and the content of the array \<open>params\<close> afterwards.
  The argument \<open>loc0\<close> stands for the indeterminate initial values of the locals.
\<close>

definition x2params :: "macros \<Rightarrow> limits \<Rightarrow> prow list \<Rightarrow> stypes \<Rightarrow> real list \<Rightarrow> real list \<Rightarrow> x2_locals
    \<Rightarrow> int \<times> real list" where
  "x2params mc sLimits sProperty sTypes x params loc0 =
     (case check_from mc sProperty x N_PARAMS 0 False of
        (True, LAM) \<Rightarrow> (1, params)
      | (False, LAM) \<Rightarrow>
          (0, fst (fold (x2params_slot mc sLimits sProperty sTypes LAM x) [0..<N_PARAMS]
                     (params, loc0))))"

text \<open>
  The evaluation of a candidate in \<^verbatim>\<open>chi2_gpu\<close> (lines 1562 to 1565 and their
  repetitions): \<^verbatim>\<open>chi2one\<close> is called only when \<^verbatim>\<open>x2params\<close> returns 0.  The argument
  \<open>chi2\<close> is the call of \<^verbatim>\<open>chi2one\<close> on the thread's arrays \<open>params\<close> and \<open>delta_V\<close>,
  giving the fit value and the new \<open>delta_V\<close>.
\<close>

definition eval_candidate :: "macros \<Rightarrow> limits \<Rightarrow> prow list \<Rightarrow> stypes \<Rightarrow> x2_locals
    \<Rightarrow> (real list \<Rightarrow> real list \<Rightarrow> real \<times> real list)
    \<Rightarrow> real list \<Rightarrow> real list \<times> real list \<Rightarrow> real option \<times> real list \<times> real list" where
  "eval_candidate mc sLimits sProperty sTypes loc0 chi2 x st =
     (case st of (params, dV) \<Rightarrow>
        case x2params mc sLimits sProperty sTypes x params loc0 of
          (rc, params') \<Rightarrow>
            if rc \<noteq> 0 then (None, params', dV)
            else (case chi2 params' dV of (c, dV') \<Rightarrow> (Some c, params', dV')))"

text \<open>
  The evaluation of the initial simplex (lines 1470 to 1480): the first rejected vertex
  sets \<open>failed\<close> and ends the loop.  The result is \<open>(failed, f, state)\<close>.
\<close>

fun init_eval :: "(real list \<Rightarrow> 's \<Rightarrow> real option \<times> 's) \<Rightarrow> real list list \<Rightarrow> nat
    \<Rightarrow> real list \<times> 's \<Rightarrow> bool \<times> real list \<times> 's" where
  "init_eval ev [] j (f, st) = (False, f, st)"
| "init_eval ev (v # vs) j (f, st) =
     (case ev v st of
        (None, st') \<Rightarrow> (True, f, st')
      | (Some c, st') \<Rightarrow> init_eval ev vs (Suc j) (f[j := c], st'))"

subsection \<open>The downhill simplex of chi2\_gpu\<close>

text \<open>
  The simplex of one thread: \<open>x\<close> holds \<open>N_PARAMS + 1\<close> vertices of \<open>N_PARAMS\<close>
  coordinates, \<open>f\<close> their fit values, \<open>ind\<close> the indexes of the vertices in sorted order.
  The array \<open>ind\<close> lives outside the simplex loop and keeps its content between
  iterations.
\<close>

text \<open>
  The body of the inner loop of the sort (lines 1505 to 1512): the running minimum
  \<open>fmin\<close> and its index \<open>jmin\<close>, where \<open>jmin = -1\<close> says that nothing was found yet.
\<close>

definition scan_step :: "real list \<Rightarrow> bool list \<Rightarrow> nat \<Rightarrow> real \<times> int \<Rightarrow> real \<times> int" where
  "scan_step f ind2 j2 s =
     (case s of (fmin, jmin) \<Rightarrow>
        if \<not> ind2 ! j2 \<and> f ! j2 \<le> fmin then (f ! j2, int j2) else (fmin, jmin))"

text \<open>The inner loop over \<open>j2 = 0, ..., n - 1\<close>, started with \<open>fmin = 1e30\<close>, \<open>jmin = -1\<close>.\<close>

definition scan_min :: "nat \<Rightarrow> real list \<Rightarrow> bool list \<Rightarrow> real \<times> int" where
  "scan_min n f ind2 = fold (scan_step f ind2) [0..<n] (10 ^ 30, - 1)"

text \<open>
  The outer loop of the sort (lines 1501 to 1521), with \<open>k\<close> passes left and \<open>j\<close> the
  current position.  When the scan finds no vertex (\<open>jmin < 0\<close>) the code stores \<open>1e30\<close>
  in \<open>f[ind[0]]\<close> and leaves the loop.
\<close>

fun sort_from :: "nat \<Rightarrow> nat \<Rightarrow> nat \<Rightarrow> real list \<Rightarrow> nat list \<Rightarrow> bool list \<Rightarrow> real list \<times> nat list" where
  "sort_from n 0 j f ind ind2 = (f, ind)"
| "sort_from n (Suc k) j f ind ind2 =
     (case scan_min n f ind2 of (fmin, jmin) \<Rightarrow>
        if jmin < 0 then (f[ind ! 0 := 10 ^ 30], ind)
        else sort_from n k (Suc j) f (ind[j := nat jmin]) (ind2[nat jmin := True]))"

text \<open>Sorting the simplex: all flags \<open>ind2\<close> cleared, then \<open>N_PARAMS + 1\<close> passes.\<close>

definition sort_simplex :: "real list \<Rightarrow> nat list \<Rightarrow> real list \<times> nat list" where
  "sort_simplex f ind =
     sort_from (N_PARAMS + 1) (N_PARAMS + 1) 0 f ind (replicate (N_PARAMS + 1) False)"

text \<open>The simplex centroid \<open>x0\<close> (lines 1524 to 1531).\<close>

definition centroid :: "real list list \<Rightarrow> real list" where
  "centroid x =
     map (\<lambda>i. fold (\<lambda>j sum. sum + x ! j ! i) [0..<N_PARAMS + 1] 0 / real (N_PARAMS + 1))
       [0..<N_PARAMS]"

text \<open>The simplex size squared (lines 1534 to 1545).\<close>

definition size2 :: "real list list \<Rightarrow> real list \<Rightarrow> real" where
  "size2 x x0 =
     fold (\<lambda>j s2. s2 + fold (\<lambda>i sum. sum + (x ! j ! i - x0 ! i) * (x ! j ! i - x0 ! i))
                          [0..<N_PARAMS] 0)
       [0..<N_PARAMS + 1] 0 / real N_PARAMS"

text \<open>
  A move of the simplex from the base point \<open>x0\<close>: every coordinate that is not frozen
  (\<open>sProperty[i][P_frozen] != 1\<close>) becomes \<open>x0[i] + coef * (v[i] - w[i])\<close>, a frozen
  coordinate of the target array \<open>old\<close> is left as it was.  The argument \<open>frozen\<close> is the
  column \<open>P_frozen\<close> of \<open>sProperty\<close>.
\<close>

definition move_point :: "int list \<Rightarrow> real \<Rightarrow> real list \<Rightarrow> real list \<Rightarrow> real list \<Rightarrow> real list \<Rightarrow> real list" where
  "move_point frozen coef x0 v w old =
     map (\<lambda>i. if frozen ! i \<noteq> 1 then x0 ! i + coef * (v ! i - w ! i) else old ! i)
       [0..<N_PARAMS]"

text \<open>
  Reflection (line 1559), expansion (line 1584) and contraction (line 1617) of one
  iteration, for the simplex \<open>x\<close> and the sorted indexes \<open>ind\<close>; the last argument is the
  previous content of the local array that receives the point.
\<close>

definition reflection :: "macros \<Rightarrow> int list \<Rightarrow> real list list \<Rightarrow> nat list \<Rightarrow> real list \<Rightarrow> real list" where
  "reflection mc frozen x ind x_r =
     move_point frozen (ALPHA_SIM mc) (centroid x) (centroid x) (x ! (ind ! N_PARAMS)) x_r"

definition expansion :: "macros \<Rightarrow> int list \<Rightarrow> real list list \<Rightarrow> real list \<Rightarrow> real list \<Rightarrow> real list" where
  "expansion mc frozen x x_r x_e =
     move_point frozen (GAMMA_SIM mc) (centroid x) x_r (centroid x) x_e"

definition contraction :: "macros \<Rightarrow> int list \<Rightarrow> real list list \<Rightarrow> nat list \<Rightarrow> real list \<Rightarrow> real list" where
  "contraction mc frozen x ind x_r =
     move_point frozen (RHO_SIM mc) (centroid x) (x ! (ind ! N_PARAMS)) (centroid x) x_r"

text \<open>
  One vertex of the shrink step (lines 1638 to 1642): vertex \<open>ind[j]\<close> is pulled towards
  the best vertex \<open>ind[0]\<close>.
\<close>

definition shrink_vertex :: "macros \<Rightarrow> int list \<Rightarrow> real list list \<Rightarrow> nat list \<Rightarrow> nat \<Rightarrow> real list" where
  "shrink_vertex mc frozen x ind j =
     move_point frozen (SIGMA_SIM mc) (x ! (ind ! 0)) (x ! (ind ! j)) (x ! (ind ! 0)) (x ! (ind ! j))"

text \<open>
  The evaluation of a candidate point is the pair of calls \<^verbatim>\<open>x2params\<close> and
  \<^verbatim>\<open>chi2one\<close>; it changes the thread's arrays \<open>params\<close> and \<open>delta_V\<close>.  In the simplex
  step it is an argument \<open>ev\<close>: \<open>ev p st\<close> gives \<open>None\<close> when \<^verbatim>\<open>x2params\<close> rejects the
  point, the fit value otherwise, and the new content of the thread's arrays.
\<close>

datatype step_status = Continue | Converged | Exhausted | Failed

record 's simplex =
  sx :: "real list list"
  sf :: "real list"
  sind :: "nat list"
  sl :: int
  sev :: "'s"

text \<open>The shrink loop \<^verbatim>\<open>for (j=1; j<N_PARAMS+1; j++)\<close> with its flag \<open>bad\<close>.\<close>

fun shrink_loop :: "macros \<Rightarrow> int list \<Rightarrow> (real list \<Rightarrow> 's \<Rightarrow> real option \<times> 's) \<Rightarrow> nat list
    \<Rightarrow> bool \<times> 's simplex \<Rightarrow> bool \<times> 's simplex" where
  "shrink_loop mc frozen ev [] (bad, S) = (bad, S)"
| "shrink_loop mc frozen ev (j # js) (bad, S) =
     (let v = shrink_vertex mc frozen (sx S) (sind S) j;
          x' = (sx S)[sind S ! j := v]
      in case ev v (sev S) of
           (None, st) \<Rightarrow> shrink_loop mc frozen ev js (True, S\<lparr>sx := x', sev := st\<rparr>)
         | (Some c, st) \<Rightarrow>
             shrink_loop mc frozen ev js
               (bad, S\<lparr>sx := x', sf := (sf S)[sind S ! j := c], sev := st\<rparr>))"

text \<open>The fit value of a candidate: \<open>1e30\<close> when \<^verbatim>\<open>x2params\<close> rejects it.\<close>

definition fit_of :: "real option \<Rightarrow> real" where
  "fit_of r = (case r of None \<Rightarrow> 10 ^ 30 | Some c \<Rightarrow> c)"

text \<open>
  One pass of the main simplex loop (lines 1493 to 1653), entered with \<open>failed = 0\<close>.
  The arguments \<open>x_r0\<close> and \<open>x_e0\<close> stand for the indeterminate initial content of the
  local arrays \<open>x_r\<close> and \<open>x_e\<close>.
\<close>

definition simplex_iter :: "macros \<Rightarrow> int list \<Rightarrow> (real list \<Rightarrow> 's \<Rightarrow> real option \<times> 's)
    \<Rightarrow> real list \<Rightarrow> real list \<Rightarrow> 's simplex \<Rightarrow> step_status \<times> 's simplex" where
  "simplex_iter mc frozen ev x_r0 x_e0 S0 =
     (let l = sl S0 + 1;
          (f, ind) = sort_simplex (sf S0) (sind S0);
          S = S0\<lparr>sf := f, sind := ind, sl := l\<rparr>;
          x = sx S;
          x0 = centroid x
      in if size2 x x0 < SIZE2_MIN mc then (Converged, S)
         else if l > N_STEPS mc then (Exhausted, S)
         else
          let worst = ind ! N_PARAMS;
              x_r = reflection mc frozen x ind x_r0;
              (r, st) = ev x_r (sev S);
              f_r = fit_of r
          in if f_r \<ge> f ! (ind ! 0) \<and> f_r < f ! (ind ! (N_PARAMS - 1))
             then (Continue, S\<lparr>sx := x[worst := x_r], sf := f[worst := f_r], sev := st\<rparr>)
             else if f_r < f ! (ind ! 0) then
               (let x_e = expansion mc frozen x x_r x_e0;
                    (e, st2) = ev x_e st;
                    f_e = fit_of e
                in if f_e < f_r
                   then (Continue, S\<lparr>sx := x[worst := x_e], sf := f[worst := f_e], sev := st2\<rparr>)
                   else (Continue, S\<lparr>sx := x[worst := x_r], sf := f[worst := f_r], sev := st2\<rparr>))
             else
               (let x_c = contraction mc frozen x ind x_r;
                    (c, st2) = ev x_c st;
                    f_c = fit_of c
                in if f_c < f ! worst
                   then (Continue, S\<lparr>sx := x[worst := x_c], sf := f[worst := f_c], sev := st2\<rparr>)
                   else
                     (case shrink_loop mc frozen ev [1..<N_PARAMS + 1] (False, S\<lparr>sev := st2\<rparr>) of
                        (bad, S') \<Rightarrow> if bad then (Failed, S') else (Continue, S'))))"

text \<open>
  The value a thread hands to the reduction (lines 1659 to 1662): \<open>1e30\<close> for a failed
  optimisation, the best fit value \<open>f[ind[0]]\<close> otherwise.
\<close>

definition thread_result :: "bool \<Rightarrow> real list \<Rightarrow> nat list \<Rightarrow> real" where
  "thread_result failed f ind = (if failed then 10 ^ 30 else f ! (ind ! 0))"

text \<open>
  The serial reduction of thread 0 (lines 1690 to 1702) over the array \<open>s_f\<close> of the
  block: the pair \<open>(smin, thread_min)\<close>.
\<close>

definition reduce_step :: "real list \<Rightarrow> nat \<Rightarrow> real \<times> nat \<Rightarrow> real \<times> nat" where
  "reduce_step s_f j s =
     (case s of (smin, thread_min) \<Rightarrow> if s_f ! j < smin then (s_f ! j, j) else (smin, thread_min))"

definition serial_reduction :: "macros \<Rightarrow> real list \<Rightarrow> real \<times> nat" where
  "serial_reduction mc s_f = fold (reduce_step s_f) [0..<length s_f] (HUGE mc, 0)"

text \<open>
  The end of the kernel for one block (lines 1729 to 1734): the stored value \<open>d_f[block]\<close>
  after the launch, given the value before it and the block's array \<open>s_f\<close> of the last stage.
\<close>

definition store_best :: "macros \<Rightarrow> real \<Rightarrow> real list \<Rightarrow> real" where
  "store_best mc d_f s_f =
     (case serial_reduction mc s_f of (smin, thread_min) \<Rightarrow> if smin < d_f then smin else d_f)"

text \<open>\<^verbatim>\<open>setup_kernel\<close> sets \<open>d_f[block]\<close> to \<open>1e30\<close> (line 1976).\<close>

definition setup_kernel :: real where
  "setup_kernel = 10 ^ 30"

text \<open>A sequence of launches of \<^verbatim>\<open>chi2_gpu\<close>, seen from one block.\<close>

fun launches :: "macros \<Rightarrow> real \<Rightarrow> real list list \<Rightarrow> real" where
  "launches mc d_f [] = d_f"
| "launches mc d_f (s_f # rest) = launches mc (store_best mc d_f s_f) rest"

text \<open>Macro values used for concrete evaluations.\<close>

definition demo_macros :: macros where
  "demo_macros = \<lparr> T_c_tumb = 4, T_b_tumb = 5, T_Es = 6, T_psi_0 = 7,
      T_theta_M = 0, T_phi_M = 1, T_phi_0 = 2, T_L = 3,
      PERIODIC = 1, HARD_BOTH = 2, HARD_LEFT = 3, HARD_RIGHT = 4, PERIODIC_LAM = 5,
      TIME_STEP = 1 / 100, MAX_MINIMA = 20, MINIMA_TEST = False, HUGE = 10 ^ 38,
      SIZE2_MIN = 1 / 10 ^ 10, N_STEPS = 5000,
      ALPHA_SIM = 1, GAMMA_SIM = 2, RHO_SIM = 1 / 2, SIGMA_SIM = 1 / 2 \<rparr>"

subsection \<open>Predicates used in the proofs about the sort\<close>

text \<open>
  What the scan has found after looking at the indexes below \<open>k\<close>: nothing, or the last
  of the unflagged vertices of least fit value.
\<close>

definition scan_ok :: "nat \<Rightarrow> real list \<Rightarrow> bool list \<Rightarrow> real \<times> int \<Rightarrow> bool" where
  "scan_ok k f ind2 s \<longleftrightarrow>
     (case s of (fmin, jmin) \<Rightarrow>
        (jmin = - 1 \<and> fmin = 10 ^ 30 \<and> (\<forall>j<k. ind2 ! j \<or> f ! j > 10 ^ 30))
      \<or> (0 \<le> jmin \<and> nat jmin < k \<and> \<not> ind2 ! nat jmin \<and> f ! nat jmin = fmin \<and> fmin \<le> 10 ^ 30
          \<and> (\<forall>j<k. \<not> ind2 ! j \<longrightarrow> fmin < f ! j \<or> (fmin = f ! j \<and> j \<le> nat jmin))))"

text \<open>Vertex \<open>i\<close> is ranked before vertex \<open>j\<close>: smaller fit value, or equal value and higher index.\<close>

definition before :: "real list \<Rightarrow> nat \<Rightarrow> nat \<Rightarrow> bool" where
  "before f i j \<longleftrightarrow> f ! i < f ! j \<or> (f ! i = f ! j \<and> j < i)"

text \<open>The invariant of the outer loop of the sort at position \<open>j\<close>.\<close>

definition sort_inv :: "nat \<Rightarrow> nat \<Rightarrow> real list \<Rightarrow> nat list \<Rightarrow> bool list \<Rightarrow> bool" where
  "sort_inv n j f ind ind2 \<longleftrightarrow>
     length ind2 = n \<and> j \<le> length ind
   \<and> (\<forall>a<j. ind ! a < n \<and> ind2 ! (ind ! a))
   \<and> (\<forall>u<n. ind2 ! u \<longrightarrow> (\<exists>a<j. ind ! a = u))
   \<and> (\<forall>a<j. \<forall>b<j. a < b \<longrightarrow> before f (ind ! a) (ind ! b))
   \<and> (\<forall>a<j. \<forall>u<n. \<not> ind2 ! u \<longrightarrow> before f (ind ! a) u)"

subsection \<open>Concrete inputs\<close>

text \<open>Fit values of a simplex in which the vertices 1 and 2 tie.\<close>

definition tie_f :: "real list" where
  "tie_f = [5, 3, 3, 4, 6, 7, 8, 9]"

definition tie_ind :: "nat list" where
  "tie_ind = [0, 0, 0, 0, 0, 0, 0, 0]"

text \<open>
  The centroid of the spec's words, for comparison with \<open>centroid\<close>: the mean of the
  vertices other than the worst one.
\<close>

definition centroid_excluding_worst :: "real list list \<Rightarrow> nat \<Rightarrow> real list" where
  "centroid_excluding_worst x worst =
     map (\<lambda>i. sum_list (map (\<lambda>j. x ! j ! i) (filter (\<lambda>j. j \<noteq> worst) [0..<N_PARAMS + 1]))
               / real N_PARAMS)
       [0..<N_PARAMS]"

text \<open>A simplex whose worst vertex (index 7, fit value 7) lies away from the others.\<close>

definition far_x :: "real list list" where
  "far_x = [[0, 0, 0, 0, 0, 0, 0], [0, 0, 0, 0, 0, 0, 0], [0, 0, 0, 0, 0, 0, 0],
            [0, 0, 0, 0, 0, 0, 0], [0, 0, 0, 0, 0, 0, 0], [0, 0, 0, 0, 0, 0, 0],
            [0, 0, 0, 0, 0, 0, 0], [8, 0, 0, 0, 0, 0, 0]]"

definition far_f :: "real list" where
  "far_f = [0, 1, 2, 3, 4, 5, 6, 7]"

definition free7 :: "int list" where
  "free7 = [0, 0, 0, 0, 0, 0, 0]"

text \<open>
  What the serial reduction holds after the threads below \<open>k\<close>: the least value and the
  first thread that has it, or the start value \<open>HUGE\<close> when no thread is below it.
\<close>

definition red_ok :: "nat \<Rightarrow> real list \<Rightarrow> real \<Rightarrow> real \<times> nat \<Rightarrow> bool" where
  "red_ok k s_f H s \<longleftrightarrow>
     (case s of (smin, thread_min) \<Rightarrow>
        (thread_min < k \<and> s_f ! thread_min = smin \<and> smin < H
           \<and> (\<forall>j<k. smin \<le> s_f ! j) \<and> (\<forall>j<thread_min. smin < s_f ! j))
      \<or> (smin = H \<and> thread_min = 0 \<and> (\<forall>j<k. H \<le> s_f ! j)))"

text \<open>Two launches of a block of three threads; in the second one every thread has failed.\<close>

definition demo_launch :: "real list" where
  "demo_launch = [4, 2, 2]"

definition failed_launch :: "real list" where
  "failed_launch = [10 ^ 30, 10 ^ 30, 10 ^ 30]"

text \<open>
  A parameter table with seven free slots: \<open>phi_M\<close>, \<open>phi_0\<close> (periodic), \<open>L\<close>,
  \<open>c_tumb\<close> (independent, hard limits on both sides), \<open>b_tumb\<close>, \<open>Es\<close> (dependent, hard
  limits on both sides) and \<open>psi_0\<close> (dependent, periodic only in the long-axis mode).
\<close>

definition demo_row :: "int \<Rightarrow> int \<Rightarrow> int \<Rightarrow> prow" where
  "demo_row t indep per =
     \<lparr> P_type = t, P_independent = indep, P_frozen = 0, P_iseg = 0, P_periodic = per \<rparr>"

definition demo_property :: "prow list" where
  "demo_property =
     [demo_row 1 1 1, demo_row 2 1 1, demo_row 3 1 2, demo_row 4 1 2,
      demo_row 5 0 2, demo_row 6 0 2, demo_row 7 0 5]"

definition demo_limits :: limits where
  "demo_limits r t =
     (if t = 3 then (if r = 0 then 0 else 10)
      else if t = 4 then (if r = 0 then - 2 else 0)
      else (if r = 0 then 0 else 1))"

definition demo_types :: stypes where
  "demo_types t iseg = nat (t - 1)"

definition demo_locals :: x2_locals where
  "demo_locals = \<lparr> log_c_tumb = 0, log_b_tumb = 0, Is = 0, Ii = 0, psi_min = 0, psi_max = 0 \<rparr>"

text \<open>A candidate in the short-axis mode whose coordinate of \<open>psi_0\<close> is below 0.\<close>

definition sam_left_x :: "real list" where
  "sam_left_x = [1 / 2, 1 / 2, 1 / 2, 1 / 2, 1 / 2, 1 / 4, - 1 / 10]"

definition zero7 :: "real list" where
  "zero7 = [0, 0, 0, 0, 0, 0, 0]"

text \<open>A physical point for the table \<open>demo_property\<close>: \<open>L = 5\<close> in the slot 2.\<close>

definition demo_params :: "real list" where
  "demo_params = [1, 2, 5, 1 / 4, 1 / 2, 1 / 2, 0]"

text \<open>
  The two branches of the encoding of the energy parameter in \<^verbatim>\<open>params2x\<close>
  (lines 1009 to 1015), as a function of \<open>Ii\<close>, \<open>Is\<close> and \<open>Es\<close>.
\<close>

definition enc_Es :: "real \<Rightarrow> real \<Rightarrow> real \<Rightarrow> real" where
  "enc_Es Ii' Is' Es =
     (if Es > 1 / Ii' then 0.5 * ((Es - 1 / Ii') / (1 - 1 / Ii') + 1)
      else 0.5 * (Es - 1 / Is') / (1 / Ii' - 1 / Is'))"

text \<open>
  The sums of the spec for the filter \<open>m\<close> over the first \<open>n\<close> data points, with the
  residual \<open>y = observed magnitude - model magnitude\<close>: \<open>S2 = \<Sum> w y y\<close>,
  \<open>S1 = \<Sum> w y\<close>, \<open>S0 = \<Sum> w\<close>.
\<close>

definition S2 :: "obs_data list \<Rightarrow> (nat \<Rightarrow> real) \<Rightarrow> nat \<Rightarrow> nat \<Rightarrow> real" where
  "S2 sData mags n m =
     (\<Sum>i<n. if obsFilter (sData ! i) = int m
             then obsw (sData ! i) * ((obsV (sData ! i) - mags i) * (obsV (sData ! i) - mags i))
             else 0)"

definition S1 :: "obs_data list \<Rightarrow> (nat \<Rightarrow> real) \<Rightarrow> nat \<Rightarrow> nat \<Rightarrow> real" where
  "S1 sData mags n m =
     (\<Sum>i<n. if obsFilter (sData ! i) = int m
             then obsw (sData ! i) * (obsV (sData ! i) - mags i)
             else 0)"

definition S0 :: "obs_data list \<Rightarrow> nat \<Rightarrow> nat \<Rightarrow> real" where
  "S0 sData n m = (\<Sum>i<n. if obsFilter (sData ! i) = int m then obsw (sData ! i) else 0)"

text \<open>Ten data points of one filter with unit weights, one every 0.01 days.\<close>

definition demo_obs :: "nat \<Rightarrow> obs_data" where
  "demo_obs i =
     \<lparr> obsV = 25, obsw = 1, obsE_x = 1, obsE_y = 0, obsE_z = 0,
       obsS_x = 1, obsS_y = 0, obsS_z = 0, obsMJD = real i / 100, obsFilter = 0 \<rparr>"

definition demo_data :: "obs_data list" where
  "demo_data = map demo_obs [0..<10]"

text \<open>The accumulators of fit mode after \<open>n\<close> data points.\<close>

definition fit_inv :: "obs_data list \<Rightarrow> (nat \<Rightarrow> real) \<Rightarrow> nat \<Rightarrow> real list \<Rightarrow> nat \<Rightarrow> chi2_vars \<Rightarrow> bool" where
  "fit_inv sData mags F d0 n st \<longleftrightarrow>
     early st = None \<and> d_Vmod st = d0
   \<and> length (sum_y2 st) = F \<and> length (sum_y st) = F \<and> length (sum_w st) = F
   \<and> (\<forall>m<F. sum_y2 st ! m = S2 sData mags n m \<and> sum_y st ! m = S1 sData mags n m
              \<and> sum_w st ! m = S0 sData n m)"

text \<open>
  The test of lines 714 and 721 to 726 at the data point \<open>i\<close>: the point \<open>i - 1\<close> is a
  brightness minimum (a maximum of the magnitude) inside the covered time intervals.
\<close>

definition minimum_at :: "obs_data list \<Rightarrow> (nat \<Rightarrow> real) \<Rightarrow> nat \<Rightarrow> bool" where
  "minimum_at sData mags i \<longleftrightarrow>
     mags (i - 1) > mags (i - 2) \<and> mags (i - 1) \<ge> mags i
     \<and> covered (58051.044624 + obsMJD (sData ! (i - 1)))"

text \<open>
  The minima among the first \<open>n\<close> data points with the values that are recorded for
  them, \<open>V_old[1] + delta_V[0]\<close>; the test starts at the third point.
\<close>

definition tracked_minima :: "obs_data list \<Rightarrow> (nat \<Rightarrow> real) \<Rightarrow> real \<Rightarrow> nat \<Rightarrow> real list" where
  "tracked_minima sData mags dV0 n =
     map (\<lambda>i. mags (i - 1) + dV0) (filter (minimum_at sData mags) [2..<n])"

text \<open>A recorded value that the scan for the deepest minimum can select.\<close>

definition selectable :: "real \<Rightarrow> bool" where
  "selectable v \<longleftrightarrow> v > - (10 ^ 30)"

text \<open>The variables of the search for minima after \<open>n\<close> data points.\<close>

definition track_inv :: "macros \<Rightarrow> obs_data list \<Rightarrow> (nat \<Rightarrow> real) \<Rightarrow> real \<Rightarrow> nat \<Rightarrow> chi2_vars \<Rightarrow> bool" where
  "track_inv mc sData mags dV0 n st \<longleftrightarrow>
     (if int (length (tracked_minima sData mags dV0 n)) \<le> MAX_MINIMA mc
      then early st = None \<and> Vmin st = tracked_minima sData mags dV0 n
           \<and> (n = 1 \<longrightarrow> fst (V_old st) = mags 0 \<and> fst (t_old st) = obsMJD (sData ! 0))
           \<and> (2 \<le> n \<longrightarrow> V_old st = (mags (n - 2), mags (n - 1))
                      \<and> t_old st = (obsMJD (sData ! (n - 2)), obsMJD (sData ! (n - 1))))
      else early st = Some (- 1))"

text \<open>What the scan for the deepest minimum holds after the cells below \<open>n\<close>.\<close>

definition deepest_ok :: "real list \<Rightarrow> nat \<Rightarrow> real \<times> int \<Rightarrow> bool" where
  "deepest_ok vmin n s \<longleftrightarrow>
     (case s of (Vmax, kmax) \<Rightarrow>
        (kmax = - 1 \<and> Vmax = - (10 ^ 30) \<and> list_all (\<lambda>v. \<not> selectable v) (take n vmin))
      \<or> (0 \<le> kmax \<and> nat kmax < n \<and> Vmax = vmin ! nat kmax \<and> selectable Vmax))"

text \<open>The macro values of the build with \<^verbatim>\<open>MINIMA_TEST\<close>.\<close>

definition minima_macros :: macros where
  "minima_macros = demo_macros\<lparr>MINIMA_TEST := True\<rparr>"

text \<open>The same build with room for one minimum only.\<close>

definition tight_macros :: macros where
  "tight_macros = minima_macros\<lparr>MAX_MINIMA := 1\<rparr>"

text \<open>
  A body that does not rotate (\<open>L = 0\<close>) with the semi-axes \<open>b = 1/2\<close>, \<open>c = 1/4\<close>,
  the energy parameter \<open>Es = 1\<close> and all angles zero, for the table \<open>demo_types\<close>: its
  axes \<open>b\<close>, \<open>c\<close>, \<open>a\<close> stay along the x, y and z axes.
\<close>

definition still_params :: "real list" where
  "still_params = [0, 0, 0, 1 / 4, 1 / 2, 1, 0]"

text \<open>
  A data point at the time \<open>t\<close> with the Sun on the z axis at the distance \<open>s\<close> and the
  Earth on the x axis at the distance \<open>s / 2\<close>: seen from the body \<open>still_params\<close> the
  phase angle of the ellipsoid model is a right angle.
\<close>

definition phase_obs :: "real \<Rightarrow> real \<Rightarrow> obs_data" where
  "phase_obs s t =
     \<lparr> obsV = 25, obsw = 1, obsE_x = s / 2, obsE_y = 0, obsE_z = 0,
       obsS_x = 0, obsS_y = 0, obsS_z = s, obsMJD = t, obsFilter = 0 \<rparr>"

text \<open>Five data points, 0.01 days apart; the second and the fourth are the fainter ones.\<close>

definition dips :: "obs_data list" where
  "dips = [phase_obs 2 0, phase_obs 1 (1 / 100), phase_obs 2 (2 / 100),
           phase_obs 1 (3 / 100), phase_obs 2 (4 / 100)]"

text \<open>
  The factor of the brightness of line 625 for the data points \<open>phase_obs\<close>: there
  \<open>alpha_p = pi / 2\<close> and \<open>lambda_p = pi / 4\<close>, and the brightness is
  \<open>b * c * s * phase_factor\<close>.
\<close>

definition phase_factor :: real where
  "phase_factor = 1 - ln (1 / tan (pi / 8) / tan (pi / 8)) / (2 * sqrt 2)"

section \<open>Theorems\<close>

subsection \<open>RK4 step count\<close>

lemma N_steps_floor:
  assumes "0 < TIME_STEP mc" and "t1 \<le> t2"
  shows "N_steps_of mc t1 t2 = \<lfloor>(t2 - t1) / TIME_STEP mc\<rfloor> + 1"
proof -
  have "0 \<le> (t2 - t1) / TIME_STEP mc" using assms by simp
  then have "0 \<le> (t2 - t1) / TIME_STEP mc + 1" by linarith
  then have "N_steps_of mc t1 t2 = \<lfloor>(t2 - t1) / TIME_STEP mc + 1\<rfloor>"
    by (simp add: N_steps_of_def c_int_of_real_def)
  then show ?thesis by simp
qed

lemma N_steps_exact_multiple:
  assumes "0 < TIME_STEP mc"
  shows "N_steps_of mc t (t + TIME_STEP mc) = 2"
  using assms by (simp add: N_steps_of_def c_int_of_real_def)

text \<open>
  Claim C5, as amended.  For consecutive epochs \<open>t1 < t2\<close> and a positive \<open>TIME_STEP\<close>
  the integration makes \<open>N_steps = floor ((t2 - t1) / TIME_STEP) + 1\<close> passes of the RK4
  body, all with the step \<open>h = (t2 - t1) / N_steps\<close>; the step is positive and strictly
  smaller than \<open>TIME_STEP\<close>, and \<open>N_steps\<close> steps of size \<open>h\<close> cover the gap exactly.
  (The count equals the ceiling of \<open>(t2 - t1) / TIME_STEP\<close> unless the gap is an exact
  multiple of \<open>TIME_STEP\<close>, where it is one more.)
\<close>

theorem C5_rk4_step_count:
  assumes ts: "0 < TIME_STEP mc" and lt: "t1 < t2"
  shows "N_steps_of mc t1 t2 = \<lfloor>(t2 - t1) / TIME_STEP mc\<rfloor> + 1
       \<and> step_h mc t1 t2 = (t2 - t1) / real_of_int (N_steps_of mc t1 t2)
       \<and> 0 < step_h mc t1 t2
       \<and> step_h mc t1 t2 < TIME_STEP mc
       \<and> real_of_int (N_steps_of mc t1 t2) * step_h mc t1 t2 = t2 - t1
       \<and> rk4_integrate mc mu t1 t2 y =
           ((rk4_step ((t2 - t1) / real_of_int (N_steps_of mc t1 t2)) mu) ^^ nat (N_steps_of mc t1 t2)) y"
proof -
  let ?q = "(t2 - t1) / TIME_STEP mc"
  let ?n = "N_steps_of mc t1 t2"
  have n: "?n = \<lfloor>?q\<rfloor> + 1"
    using N_steps_floor [of mc t1 t2] ts lt by simp
  have q0: "0 < ?q" using ts lt by simp
  then have fl: "0 \<le> \<lfloor>?q\<rfloor>" by simp
  have npos: "0 < ?n" using n fl by linarith
  then have rpos: "0 < real_of_int ?n" by simp
  have qlt: "?q < real_of_int ?n" using n by linarith
  have h: "step_h mc t1 t2 = (t2 - t1) / real_of_int ?n"
    by (simp add: step_h_def)
  have hpos: "0 < step_h mc t1 t2" using h rpos lt by simp
  have "t2 - t1 < real_of_int ?n * TIME_STEP mc"
    using qlt ts by (simp add: pos_divide_less_eq)
  then have hlt: "step_h mc t1 t2 < TIME_STEP mc"
    using rpos h by (simp add: pos_divide_less_eq mult.commute)
  have cover: "real_of_int ?n * step_h mc t1 t2 = t2 - t1"
    using rpos h by simp
  have integ: "rk4_integrate mc mu t1 t2 y =
      ((rk4_step ((t2 - t1) / real_of_int ?n) mu) ^^ nat ?n) y"
    by (simp add: rk4_integrate_def step_h_def)
  show ?thesis using n h hpos hlt cover integ by blast
qed

theorem C5_rk4_step_count_witness:
  "0 < TIME_STEP demo_macros \<and> (0::real) < 1 / 40
   \<and> N_steps_of demo_macros 0 (1 / 40) = 3
   \<and> step_h demo_macros 0 (1 / 40) = 1 / 120
   \<and> step_h demo_macros 0 (1 / 40) < TIME_STEP demo_macros"
proof -
  have ts: "0 < TIME_STEP demo_macros" by (simp add: demo_macros_def)
  have lt: "(0::real) < 1 / 40" by simp
  have fl: "\<lfloor>(1 / 40 - 0) / TIME_STEP demo_macros\<rfloor> = 2"
    by (simp add: demo_macros_def floor_eq_iff)
  note c = C5_rk4_step_count [OF ts lt, of "(0, 0, 0)" "(0, 0, 0)"]
  have n: "N_steps_of demo_macros 0 (1 / 40) = 3" using c fl by simp
  have h: "step_h demo_macros 0 (1 / 40) = 1 / 120" using c n by simp
  have hlt: "step_h demo_macros 0 (1 / 40) < TIME_STEP demo_macros" using c by blast
  show ?thesis using ts lt n h hlt by blast
qed

text \<open>
  The claim as stated (step count equal to the ceiling) fails when the gap is an exact
  multiple of \<open>TIME_STEP\<close>: with \<open>TIME_STEP = 1/100\<close>, \<open>t1 = 0\<close> and \<open>t2 = 1/100\<close>
  the code makes two steps, the ceiling is one.
\<close>

theorem C5_ceil_counterexample:
  "(0::real) < 1 / 100
   \<and> N_steps_of demo_macros 0 (1 / 100) = 2
   \<and> \<lceil>(1 / 100 - 0) / TIME_STEP demo_macros\<rceil> = 1
   \<and> N_steps_of demo_macros 0 (1 / 100) \<noteq> \<lceil>(1 / 100 - 0) / TIME_STEP demo_macros\<rceil>"
  by (simp add: N_steps_of_def c_int_of_real_def demo_macros_def)

subsection \<open>Orthonormality of the body axes\<close>


lemma dot_cross_left1: "dot (cross u v) u = 0"
  by (cases u, cases v) (simp add: algebra_simps)

lemma dot_cross_left2: "dot (cross u v) v = 0"
  by (cases u, cases v) (simp add: algebra_simps)

lemma dot_commute: "dot u v = dot v u"
  by (cases u, cases v) (simp add: algebra_simps)

lemma lagrange: "dot (cross u v) (cross u v) = dot u u * dot v v - dot u v * dot u v"
  by (cases u, cases v) (simp add: algebra_simps)

lemma cross_unit: "dot u u = 1 \<Longrightarrow> dot v v = 1 \<Longrightarrow> dot u v = 0 \<Longrightarrow> dot (cross u v) (cross u v) = 1"
  by (simp add: lagrange)

lemma dot_rot_left: "dot (rot u v t) w = dot u w * cos t + dot v w * sin t"
  by (cases u, cases v, cases w) (simp add: algebra_simps)

lemma dot_rot_right: "dot w (rot u v t) = dot w u * cos t + dot w v * sin t"
  by (cases u, cases v, cases w) (simp add: algebra_simps)

lemma cs1: "cos t * cos t + sin t * sin t = (1::real)"
  using sin_cos_squared_add2 [of t] by (simp add: power2_eq_square)

lemma rot_unit:
  assumes "dot u u = 1" "dot v v = 1" "dot u v = 0"
  shows "dot (rot u v t) (rot u v t) = 1"
proof -
  have vu: "dot v u = 0" using assms(3) by (simp add: dot_commute)
  have "dot (rot u v t) (rot u v t) = cos t * cos t + sin t * sin t"
    by (simp add: dot_rot_left dot_rot_right assms vu algebra_simps)
  also have "\<dots> = 1" by (rule cs1)
  finally show ?thesis .
qed

lemma M_vec_unit: "dot (M_vec theta_M phi_M) (M_vec theta_M phi_M) = 1"
proof -
  let ?s = "sin theta_M" and ?c = "cos theta_M" and ?sp = "sin phi_M" and ?cp = "cos phi_M"
  have "dot (M_vec theta_M phi_M) (M_vec theta_M phi_M)
      = ?s * ?cp * (?s * ?cp) + ?s * ?sp * (?s * ?sp) + ?c * ?c"
    by (simp add: M_vec_def)
  also have "\<dots> = ?s * ?s * (?cp * ?cp + ?sp * ?sp) + ?c * ?c"
    by algebra
  also have "\<dots> = ?s * ?s + ?c * ?c"
    by (simp only: cs1 mult_1_right)
  also have "\<dots> = 1" using cs1 [of theta_M] by (simp only: add.commute)
  finally show ?thesis .
qed

text \<open>The construction of the axes, written with vector operations.\<close>

lemma frame_orthonormal:
  fixes M_x M_y M_z :: real
  assumes unit: "dot (M_x, M_y, M_z) (M_x, M_y, M_z) = 1"
      and nz: "XM_len (M_x, M_y, M_z) \<noteq> 0"
  defines "XM \<equiv> XM_len (M_x, M_y, M_z)"
  defines "XMv \<equiv> (M_z / XM, 0, - M_x / XM)"
  shows "dot XMv XMv = 1" and "dot XMv (M_x, M_y, M_z) = 0"
proof -
  have sq: "XM * XM = M_z * M_z + M_x * M_x"
    unfolding XM_def by simp
  have nz': "XM \<noteq> 0" using nz by (simp add: XM_def)
  have "dot XMv XMv = (M_z * M_z + M_x * M_x) / (XM * XM)"
    by (simp add: XMv_def add_divide_distrib)
  also have "\<dots> = (XM * XM) / (XM * XM)" by (simp only: sq)
  also have "\<dots> = 1" using nz' by simp
  finally show "dot XMv XMv = 1" .
  show "dot XMv (M_x, M_y, M_z) = 0"
    by (simp add: XMv_def)
qed

lemma axes_chain:
  fixes M X :: vec3 and phi theta psi :: real
  assumes M1: "dot M M = 1" and X1: "dot X X = 1" and XM0: "dot X M = 0"
  defines "Y \<equiv> cross M X"
  defines "N \<equiv> rot X Y phi"
  defines "p \<equiv> cross N M"
  defines "a \<equiv> rot M p theta"
  defines "w \<equiv> cross a N"
  defines "b \<equiv> rot N w psi"
  shows "orthonormal a b (cross a b)"
proof -
  have MX0: "dot M X = 0" using XM0 by (simp add: dot_commute)
  have Y1: "dot Y Y = 1" unfolding Y_def using M1 X1 MX0 by (rule cross_unit)
  have YX: "dot Y X = 0" unfolding Y_def by (rule dot_cross_left2)
  have YM: "dot Y M = 0" unfolding Y_def by (rule dot_cross_left1)
  have XY: "dot X Y = 0" using YX by (simp add: dot_commute)
  have N1: "dot N N = 1" unfolding N_def using X1 Y1 XY by (rule rot_unit)
  have NM: "dot N M = 0" unfolding N_def by (simp add: dot_rot_left XM0 YM)
  have p1: "dot p p = 1" unfolding p_def using N1 M1 NM by (rule cross_unit)
  have pN: "dot p N = 0" unfolding p_def by (rule dot_cross_left1)
  have pM: "dot p M = 0" unfolding p_def by (rule dot_cross_left2)
  have Mp: "dot M p = 0" using pM by (simp add: dot_commute)
  have MN: "dot M N = 0" using NM by (simp add: dot_commute)
  have a1: "dot a a = 1" unfolding a_def using M1 p1 Mp by (rule rot_unit)
  have aN: "dot a N = 0" unfolding a_def by (simp add: dot_rot_left MN pN)
  have w1: "dot w w = 1" unfolding w_def using a1 N1 aN by (rule cross_unit)
  have wa: "dot w a = 0" unfolding w_def by (rule dot_cross_left1)
  have wN: "dot w N = 0" unfolding w_def by (rule dot_cross_left2)
  have Nw: "dot N w = 0" using wN by (simp add: dot_commute)
  have aw: "dot a w = 0" using wa by (simp add: dot_commute)
  have b1: "dot b b = 1" unfolding b_def using N1 w1 Nw by (rule rot_unit)
  have ab: "dot a b = 0" unfolding b_def by (simp add: dot_rot_right aN aw)
  have c1: "dot (cross a b) (cross a b) = 1" using a1 b1 ab by (rule cross_unit)
  have ca: "dot (cross a b) a = 0" by (rule dot_cross_left1)
  have cb: "dot (cross a b) b = 0" by (rule dot_cross_left2)
  have ac: "dot a (cross a b) = 0" using ca by (simp add: dot_commute)
  have bc: "dot b (cross a b) = 0" using cb by (simp add: dot_commute)
  show ?thesis unfolding orthonormal_def using a1 b1 c1 ab ac bc by blast
qed

lemma body_axes_vector_form:
  fixes M_x M_y M_z phi theta psi :: real
  defines "M \<equiv> (M_x, M_y, M_z)"
  defines "X \<equiv> (M_z / XM_len M, 0, - M_x / XM_len M)"
  defines "N \<equiv> rot X (cross M X) phi"
  defines "a \<equiv> rot M (cross N M) theta"
  defines "b \<equiv> rot N (cross a N) psi"
  shows "body_axes M (inertial_frame M) (phi, theta, psi) = (a, b, cross a b)"
  unfolding a_def b_def N_def X_def M_def
  by (simp only: body_axes_def inertial_frame_def Let_def prod.case rot.simps cross.simps
        XM_len.simps mult_zero_right mult_zero_left add_0_left add_0_right diff_zero
        diff_0_right diff_0 mult_minus_left)

lemma body_axes_orthonormal:
  assumes unit: "dot M M = 1" and nz: "XM_len M \<noteq> 0"
  shows "case body_axes M (inertial_frame M) (phi, theta, psi) of
           (a, b, c) \<Rightarrow> orthonormal a b c"
proof -
  obtain M_x M_y M_z where M: "M = (M_x, M_y, M_z)" by (cases M) auto
  define X :: vec3 where "X = (M_z / XM_len M, 0, - M_x / XM_len M)"
  define N where "N = rot X (cross M X) phi"
  define a where "a = rot M (cross N M) theta"
  define b where "b = rot N (cross a N) psi"
  have X1: "dot X X = 1" and XM0: "dot X M = 0"
    using frame_orthonormal [of M_x M_y M_z] unit nz unfolding M X_def by blast+
  have ch: "orthonormal a b (cross a b)"
    unfolding a_def b_def N_def by (rule axes_chain [OF unit X1 XM0])
  have "body_axes M (inertial_frame M) (phi, theta, psi) = (a, b, cross a b)"
    unfolding a_def b_def N_def X_def M by (rule body_axes_vector_form)
  then show ?thesis using ch by (simp only: prod.case)
qed

text \<open>
  Claim C9.  For all Euler angles \<open>phi\<close>, \<open>theta\<close>, \<open>psi\<close> and every momentum
  direction \<open>M_vec theta_M phi_M\<close> (a unit vector) for which the divisor
  \<open>XM = sqrt (M_z * M_z + M_x * M_x)\<close> of line 198 is not zero, that is every direction
  other than the y axis itself, the body axes \<open>a\<close>, \<open>b\<close>, \<open>c\<close> computed by chi2one
  are, in exact real arithmetic, of unit length and pairwise orthogonal.
\<close>

theorem C9_body_axes_orthonormal:
  assumes nz: "XM_len (M_vec theta_M phi_M) \<noteq> 0"
  shows "case body_axes (M_vec theta_M phi_M) (inertial_frame (M_vec theta_M phi_M))
                (phi, theta, psi) of
           (a, b, c) \<Rightarrow> orthonormal a b c"
  using body_axes_orthonormal [OF M_vec_unit nz] .

text \<open>
  The momentum direction with \<open>theta_M = pi / 3\<close>, \<open>phi_M = pi / 6\<close> is
  \<open>(3/4, sqrt 3 / 4, 1/2)\<close>, with \<open>XM = sqrt 13 / 4\<close>.
\<close>

lemma tilted_momentum: "M_vec (pi / 3) (pi / 6) = (3 / 4, sqrt 3 / 4, 1 / 2)"
  by (simp add: M_vec_def sin_60 cos_60 sin_30 cos_30)

theorem C9_body_axes_orthonormal_witness:
  "XM_len (M_vec (pi / 3) (pi / 6)) = sqrt 13 / 4
   \<and> XM_len (M_vec (pi / 3) (pi / 6)) \<noteq> 0
   \<and> (case body_axes (M_vec (pi / 3) (pi / 6)) (inertial_frame (M_vec (pi / 3) (pi / 6)))
              (pi / 6, pi / 4, pi / 3) of
         (a, b, c) \<Rightarrow> orthonormal a b c)"
proof -
  have "XM_len (M_vec (pi / 3) (pi / 6)) = sqrt (13 / 16)"
    by (simp add: tilted_momentum)
  also have "\<dots> = sqrt 13 / sqrt 16" by (rule real_sqrt_divide)
  also have "sqrt 16 = sqrt (4 * 4)" by simp
  also have "\<dots> = 4" by (simp only: real_sqrt_abs2 abs_numeral)
  finally have v: "XM_len (M_vec (pi / 3) (pi / 6)) = sqrt 13 / 4" .
  have nz: "XM_len (M_vec (pi / 3) (pi / 6)) \<noteq> 0" unfolding v by simp
  show ?thesis
    using v nz C9_body_axes_orthonormal [OF nz, of "pi / 6" "pi / 4" "pi / 3"] by blast
qed

subsection \<open>Ranking of the simplex vertices\<close>


lemma scan_ok_step:
  assumes "scan_ok k f ind2 s"
  shows "scan_ok (Suc k) f ind2 (scan_step f ind2 k s)"
proof -
  obtain fmin jmin where s: "s = (fmin, jmin)" by (cases s)
  show ?thesis
  proof (cases "\<not> ind2 ! k \<and> f ! k \<le> fmin")
    case True
    then have st: "scan_step f ind2 k s = (f ! k, int k)" by (simp add: scan_step_def s)
    have le: "f ! k \<le> 10 ^ 30" using assms True unfolding scan_ok_def s by auto
    have "\<forall>j<Suc k. \<not> ind2 ! j \<longrightarrow> f ! k < f ! j \<or> (f ! k = f ! j \<and> j \<le> k)"
    proof (intro allI impI)
      fix j assume j: "j < Suc k" and u: "\<not> ind2 ! j"
      show "f ! k < f ! j \<or> (f ! k = f ! j \<and> j \<le> k)"
      proof (cases "j = k")
        case True then show ?thesis by simp
      next
        case False
        then have jk: "j < k" using j by simp
        from assms have "fmin \<le> f ! j"
          unfolding scan_ok_def s using jk u by auto
        then show ?thesis using True jk by auto
      qed
    qed
    then show ?thesis unfolding st scan_ok_def using True le by simp
  next
    case False
    then have st: "scan_step f ind2 k s = s" by (auto simp: scan_step_def s)
    have "scan_ok (Suc k) f ind2 (fmin, jmin)"
      using assms False unfolding scan_ok_def s by (auto simp: less_Suc_eq)
    then show ?thesis using st by (simp add: s)
  qed
qed

lemma scan_ok_fold:
  "scan_ok k f ind2 (fold (scan_step f ind2) [0..<k] (10 ^ 30, - 1))"
proof (induction k)
  case 0
  show ?case by (simp add: scan_ok_def)
next
  case (Suc k)
  then show ?case using scan_ok_step [of k f ind2] by simp
qed

lemma scan_min_ok: "scan_ok n f ind2 (scan_min n f ind2)"
  unfolding scan_min_def by (rule scan_ok_fold)

lemma exists_unflagged:
  assumes inv: "sort_inv n j f ind ind2" and jn: "j < n"
  shows "\<exists>u<n. \<not> ind2 ! u"
proof (rule ccontr)
  assume "\<not> (\<exists>u<n. \<not> ind2 ! u)"
  then have all: "\<forall>u<n. ind2 ! u" by simp
  have "{..<n} \<subseteq> (\<lambda>a. ind ! a) ` {..<j}"
  proof
    fix u assume "u \<in> {..<n}"
    then have "u < n" by simp
    with all inv obtain a where "a < j" "ind ! a = u" unfolding sort_inv_def by blast
    then show "u \<in> (\<lambda>a. ind ! a) ` {..<j}" by auto
  qed
  then have "card {..<n} \<le> card ((\<lambda>a. ind ! a) ` {..<j})"
    by (intro card_mono) auto
  also have "\<dots> \<le> card {..<j}" by (rule card_image_le) simp
  finally show False using jn by simp
qed

lemma sort_inv_step:
  assumes inv: "sort_inv n j f ind ind2" and jn: "j < n" and jl: "j < length ind"
      and bound: "\<forall>u<n. f ! u \<le> 10 ^ 30"
  obtains fmin m where "scan_min n f ind2 = (fmin, int m)"
      and "sort_inv n (Suc j) f (ind[j := m]) (ind2[m := True])"
proof -
  obtain fmin jmin where sm: "scan_min n f ind2 = (fmin, jmin)" by (cases "scan_min n f ind2")
  have ok: "scan_ok n f ind2 (fmin, jmin)" using scan_min_ok [of n f ind2] sm by simp
  obtain u where u: "u < n" "\<not> ind2 ! u" using exists_unflagged [OF inv jn] by blast
  have notnone: "\<not> (\<forall>j<n. ind2 ! j \<or> f ! j > 10 ^ 30)"
    using u bound by (auto simp: not_less)
  from ok notnone have found: "0 \<le> jmin" "nat jmin < n" "\<not> ind2 ! nat jmin"
      "f ! nat jmin = fmin"
      "\<forall>j<n. \<not> ind2 ! j \<longrightarrow> fmin < f ! j \<or> (fmin = f ! j \<and> j \<le> nat jmin)"
    unfolding scan_ok_def by auto
  define m where "m = nat jmin"
  have jm: "jmin = int m" using found(1) by (simp add: m_def)
  have len2: "length ind2 = n" using inv by (simp add: sort_inv_def)
  have mn: "m < n" using found(2) by (simp add: m_def)
  have munf: "\<not> ind2 ! m" using found(3) by (simp add: m_def)
  have mbest: "\<And>v. v < n \<Longrightarrow> \<not> ind2 ! v \<Longrightarrow> v \<noteq> m \<Longrightarrow> before f m v"
  proof -
    fix v assume v: "v < n" "\<not> ind2 ! v" "v \<noteq> m"
    from found(5) v have "fmin < f ! v \<or> (fmin = f ! v \<and> v \<le> m)" by (simp add: m_def)
    then show "before f m v" using v(3) found(4) unfolding before_def m_def by auto
  qed
  have old_ne: "\<And>a. a < j \<Longrightarrow> ind ! a \<noteq> m"
    using inv munf unfolding sort_inv_def by metis
  have "sort_inv n (Suc j) f (ind[j := m]) (ind2[m := True])"
    unfolding sort_inv_def
  proof (intro conjI allI impI)
    show "length (ind2[m := True]) = n" using len2 by simp
    show "Suc j \<le> length (ind[j := m])" using jl by simp
  next
    fix a assume a: "a < Suc j"
    show "ind[j := m] ! a < n"
      using a inv mn jl unfolding sort_inv_def by (cases "a = j") auto
    show "ind2[m := True] ! (ind[j := m] ! a)"
    proof (cases "a = j")
      case True then show ?thesis using jl mn len2 by simp
    next
      case False
      then have aj: "a < j" using a by simp
      then have "ind2 ! (ind ! a)" "ind ! a < n" using inv unfolding sort_inv_def by auto
      then show ?thesis using mn len2 aj by (simp add: nth_list_update)
    qed
  next
    fix u assume u: "u < n" and fl: "ind2[m := True] ! u"
    show "\<exists>a<Suc j. ind[j := m] ! a = u"
    proof (cases "u = m")
      case True then show ?thesis using jl by (intro exI [of _ j]) simp
    next
      case False
      then have "ind2 ! u" using fl by (simp add: nth_list_update split: if_splits)
      then obtain a where "a < j" "ind ! a = u" using inv u unfolding sort_inv_def by blast
      then show ?thesis by (intro exI [of _ a]) simp
    qed
  next
    fix a b assume a: "a < Suc j" and b: "b < Suc j" and ab: "a < b"
    show "before f (ind[j := m] ! a) (ind[j := m] ! b)"
    proof (cases "b = j")
      case True
      then have aj: "a < j" using ab by simp
      have "before f (ind ! a) m" using inv aj mn munf unfolding sort_inv_def by blast
      then show ?thesis using True aj jl by simp
    next
      case False
      then have "b < j" "a < j" using a b ab by simp_all
      then show ?thesis using inv ab unfolding sort_inv_def by simp
    qed
  next
    fix a u assume a: "a < Suc j" and u: "u < n" and unf: "\<not> ind2[m := True] ! u"
    have um: "u \<noteq> m" using unf u len2 by auto
    then have unf': "\<not> ind2 ! u" using unf by simp
    show "before f (ind[j := m] ! a) u"
    proof (cases "a = j")
      case True
      then show ?thesis using mbest [OF u unf' um] jl by simp
    next
      case False
      then have "a < j" using a by simp
      then show ?thesis using inv u unf' unfolding sort_inv_def by simp
    qed
  qed
  then show ?thesis using that sm jm by simp
qed

lemma sort_from_correct:
  assumes "sort_inv n j f ind ind2" and "j + k = n" and "n \<le> length ind"
      and "\<forall>u<n. f ! u \<le> 10 ^ 30"
  shows "\<exists>r. sort_from n k j f ind ind2 = (f, r) \<and> length r = length ind
           \<and> (\<forall>a<n. r ! a < n)
           \<and> (\<forall>a<n. \<forall>b<n. a < b \<longrightarrow> before f (r ! a) (r ! b))"
  using assms
proof (induction k arbitrary: j ind ind2)
  case 0
  then have jn: "j = n" by simp
  show ?case using "0.prems"(1) unfolding jn sort_inv_def by simp
next
  case (Suc k)
  have jn: "j < n" using Suc.prems(2) by simp
  have jl: "j < length ind" using jn Suc.prems(3) by simp
  obtain fmin m where sm: "scan_min n f ind2 = (fmin, int m)"
      and inv': "sort_inv n (Suc j) f (ind[j := m]) (ind2[m := True])"
    using sort_inv_step [OF Suc.prems(1) jn jl Suc.prems(4)] by blast
  have eq: "sort_from n (Suc k) j f ind ind2
      = sort_from n k (Suc j) f (ind[j := m]) (ind2[m := True])"
    by (simp add: sm)
  have "\<exists>r. sort_from n k (Suc j) f (ind[j := m]) (ind2[m := True]) = (f, r)
           \<and> length r = length (ind[j := m])
           \<and> (\<forall>a<n. r ! a < n)
           \<and> (\<forall>a<n. \<forall>b<n. a < b \<longrightarrow> before f (r ! a) (r ! b))"
    using Suc.IH [OF inv'] Suc.prems by simp
  then show ?case unfolding eq by simp
qed

lemma sort_inv_init: "j = 0 \<Longrightarrow> sort_inv n j f ind (replicate n False)"
  by (simp add: sort_inv_def)

lemma sort_simplex_ranking:
  assumes len: "N_PARAMS + 1 \<le> length ind"
      and bound: "\<forall>u<N_PARAMS + 1. f ! u \<le> 10 ^ 30"
  shows "\<exists>r. sort_simplex f ind = (f, r) \<and> length r = length ind
           \<and> (\<forall>a<N_PARAMS + 1. r ! a < N_PARAMS + 1)
           \<and> (\<forall>a<N_PARAMS + 1. \<forall>b<N_PARAMS + 1. a < b \<longrightarrow> before f (r ! a) (r ! b))"
  unfolding sort_simplex_def
  by (rule sort_from_correct [OF sort_inv_init [OF refl] _ len bound]) simp

lemma ranking_onto:
  assumes lt: "\<forall>a<n. (r::nat list) ! a < n"
      and ord: "\<forall>a<n. \<forall>b<n. a < b \<longrightarrow> before f (r ! a) (r ! b)"
  shows "\<forall>u<n. \<exists>a<n. r ! a = u"
proof -
  have irr: "\<And>i. \<not> before f i i" by (simp add: before_def)
  have inj: "inj_on (\<lambda>a. r ! a) {..<n}"
  proof (rule inj_onI)
    fix a b assume a: "a \<in> {..<n}" and b: "b \<in> {..<n}" and eq: "r ! a = r ! b"
    show "a = b"
    proof (rule ccontr)
      assume "a \<noteq> b"
      then consider "a < b" | "b < a" by linarith
      then show False
      proof cases
        case 1 then have "before f (r ! a) (r ! b)" using ord a b by simp
        then show False using eq irr by simp
      next
        case 2 then have "before f (r ! b) (r ! a)" using ord a b by simp
        then show False using eq irr by simp
      qed
    qed
  qed
  have sub: "(\<lambda>a. r ! a) ` {..<n} \<subseteq> {..<n}" using lt by auto
  have "card ((\<lambda>a. r ! a) ` {..<n}) = card {..<n}" using inj by (rule card_image)
  then have "(\<lambda>a. r ! a) ` {..<n} = {..<n}" using sub by (intro card_subset_eq) auto
  then show ?thesis by (metis (mono_tags, lifting) imageE lessThan_iff)
qed

text \<open>
  Claim C7, as amended.  When all fit values are at most \<open>1e30\<close> (larger values are never
  selected by the scan), sorting leaves \<open>f\<close> unchanged and fills \<open>ind\<close> with a ranking of
  all \<open>N_PARAMS + 1\<close> vertices by ascending fit value; among vertices with equal fit values
  the one with the HIGHER index is ranked first, because the scan replaces the running
  minimum also on equality (\<open>f[j2] <= fmin\<close>).
\<close>

theorem C7_sort_ties_last_found:
  assumes len: "N_PARAMS + 1 \<le> length ind"
      and bound: "\<forall>u<N_PARAMS + 1. f ! u \<le> 10 ^ 30"
  shows "\<exists>r. sort_simplex f ind = (f, r) \<and> length r = length ind
           \<and> (\<forall>a<N_PARAMS + 1. r ! a < N_PARAMS + 1)
           \<and> (\<forall>u<N_PARAMS + 1. \<exists>a<N_PARAMS + 1. r ! a = u)
           \<and> (\<forall>a<N_PARAMS + 1. \<forall>b<N_PARAMS + 1. a < b \<longrightarrow>
                 f ! (r ! a) < f ! (r ! b) \<or> (f ! (r ! a) = f ! (r ! b) \<and> r ! b < r ! a))"
proof -
  obtain r where r: "sort_simplex f ind = (f, r)" "length r = length ind"
      "\<forall>a<N_PARAMS + 1. r ! a < N_PARAMS + 1"
      "\<forall>a<N_PARAMS + 1. \<forall>b<N_PARAMS + 1. a < b \<longrightarrow> before f (r ! a) (r ! b)"
    using sort_simplex_ranking [OF len bound] by blast
  have onto: "\<forall>u<N_PARAMS + 1. \<exists>a<N_PARAMS + 1. r ! a = u"
    using ranking_onto [OF r(3) r(4)] .
  show ?thesis
    using r onto unfolding before_def by blast
qed

theorem C7_sort_ties_last_found_witness:
  "N_PARAMS + 1 \<le> length tie_ind
   \<and> list_all (\<lambda>v. v \<le> 10 ^ 30) tie_f
   \<and> (\<exists>r. sort_simplex tie_f tie_ind = (tie_f, r) \<and> length r = length tie_ind
           \<and> (\<forall>a<N_PARAMS + 1. r ! a < N_PARAMS + 1)
           \<and> (\<forall>u<N_PARAMS + 1. \<exists>a<N_PARAMS + 1. r ! a = u)
           \<and> (\<forall>a<N_PARAMS + 1. \<forall>b<N_PARAMS + 1. a < b \<longrightarrow>
                 tie_f ! (r ! a) < tie_f ! (r ! b)
                 \<or> (tie_f ! (r ! a) = tie_f ! (r ! b) \<and> r ! b < r ! a)))"
proof -
  have len: "N_PARAMS + 1 \<le> length tie_ind" by (simp add: N_PARAMS_def tie_ind_def)
  have all: "list_all (\<lambda>v. v \<le> 10 ^ 30) tie_f" by (simp add: tie_f_def)
  have bound: "\<forall>u<N_PARAMS + 1. tie_f ! u \<le> 10 ^ 30"
    using all by (simp add: list_all_length tie_f_def N_PARAMS_def)
  show ?thesis using len all C7_sort_ties_last_found [OF len bound] by blast
qed

lemma upt8: "[0..<8] = [0, 1, 2, 3, 4, 5, 6, 7]"
  by (simp add: upt_rec)

text \<open>
  The claim as stated (the tied vertex with the lower index is ranked first) fails: the
  vertices 1 and 2 have the same fit value 3, and the sort puts vertex 2 first.
\<close>

theorem C7_tie_counterexample:
  "tie_f ! 1 = tie_f ! 2
   \<and> sort_simplex tie_f tie_ind = (tie_f, [2, 1, 3, 0, 4, 5, 6, 7])"
  by (simp add: tie_f_def tie_ind_def sort_simplex_def N_PARAMS_def scan_min_def scan_step_def
      upt8 numeral_eq_Suc)

subsection \<open>The centroid of the simplex\<close>


lemma fold_plus_sum:
  "fold (\<lambda>j (s::real). s + g j) [0..<n] a = a + (\<Sum>j<n. g j)"
  by (induction n) (simp_all add: algebra_simps)

lemma centroid_nth:
  assumes "i < N_PARAMS"
  shows "centroid x ! i = (\<Sum>j<N_PARAMS + 1. x ! j ! i) / real (N_PARAMS + 1)"
  using assms by (simp add: centroid_def fold_plus_sum del: upt_Suc)

lemma move_point_nth:
  assumes "i < N_PARAMS"
  shows "move_point frozen coef x0 v w old ! i =
           (if frozen ! i \<noteq> 1 then x0 ! i + coef * (v ! i - w ! i) else old ! i)"
  using assms by (simp add: move_point_def del: upt_Suc)

text \<open>
  Claim C6, as amended.  In every simplex iteration the base point \<open>x0\<close> of the
  reflection, expansion and contraction moves is the mean of ALL \<open>N_PARAMS + 1\<close> vertices,
  the worst vertex \<open>x[ind[N_PARAMS]]\<close> included: for every coordinate \<open>i\<close> that is not
  frozen the three moves are \<open>x0[i] + ALPHA_SIM * (x0[i] - worst[i])\<close>,
  \<open>x0[i] + GAMMA_SIM * (x_r[i] - x0[i])\<close> and \<open>x0[i] + RHO_SIM * (worst[i] - x0[i])\<close> with
  \<open>x0[i] = (x[0][i] + ... + x[N_PARAMS][i]) / (N_PARAMS + 1)\<close>.
\<close>

theorem C6_centroid_of_all_vertices:
  assumes i: "i < N_PARAMS" and free: "frozen ! i \<noteq> 1"
  shows "centroid x ! i = (\<Sum>j<N_PARAMS + 1. x ! j ! i) / real (N_PARAMS + 1)
       \<and> reflection mc frozen x ind x_r ! i =
           centroid x ! i + ALPHA_SIM mc * (centroid x ! i - x ! (ind ! N_PARAMS) ! i)
       \<and> expansion mc frozen x x_r x_e ! i =
           centroid x ! i + GAMMA_SIM mc * (x_r ! i - centroid x ! i)
       \<and> contraction mc frozen x ind x_r ! i =
           centroid x ! i + RHO_SIM mc * (x ! (ind ! N_PARAMS) ! i - centroid x ! i)"
  using i free
  by (simp only: centroid_nth reflection_def expansion_def contraction_def move_point_nth
      if_True simp_thms)

lemma upt7: "[0..<7] = [0, 1, 2, 3, 4, 5, 6]"
  by (simp add: upt_rec)

theorem C6_centroid_of_all_vertices_witness:
  "(0::nat) < N_PARAMS \<and> free7 ! 0 \<noteq> 1
   \<and> centroid far_x ! 0 = 1
   \<and> reflection demo_macros free7 far_x [0, 1, 2, 3, 4, 5, 6, 7] [] ! 0 = - 6"
proof -
  have i: "(0::nat) < N_PARAMS" by (simp add: N_PARAMS_def)
  have free: "free7 ! 0 \<noteq> 1" by (simp add: free7_def)
  note c = C6_centroid_of_all_vertices [OF i free, of far_x demo_macros "[0, 1, 2, 3, 4, 5, 6, 7]" "[]" "[]"]
  have s: "(\<Sum>j<N_PARAMS + 1. far_x ! j ! 0) = 8"
    by (simp add: N_PARAMS_def far_x_def lessThan_nat_numeral lessThan_Suc)
  have c0: "centroid far_x ! 0 = 1" using c s by (simp add: N_PARAMS_def)
  have w: "far_x ! ([0, 1, 2, 3, 4, 5, 6, 7] ! N_PARAMS) ! 0 = 8"
    by (simp add: N_PARAMS_def far_x_def)
  have r: "reflection demo_macros free7 far_x [0, 1, 2, 3, 4, 5, 6, 7] [] ! 0 = - 6"
    using c c0 w by (simp add: demo_macros_def)
  show ?thesis using i free c0 r by blast
qed

text \<open>
  The claim as stated fails: for the simplex \<open>far_x\<close> with fit values \<open>far_f\<close> the worst
  vertex is vertex 7, the centroid computed by the code has first coordinate 1, and the mean
  of the other seven vertices has first coordinate 0.
\<close>

theorem C6_excluding_worst_counterexample:
  "snd (sort_simplex far_f tie_ind) ! N_PARAMS = 7
   \<and> centroid far_x ! 0 = 1
   \<and> centroid_excluding_worst far_x 7 ! 0 = 0
   \<and> centroid far_x \<noteq> centroid_excluding_worst far_x (snd (sort_simplex far_f tie_ind) ! N_PARAMS)"
proof -
  have srt: "sort_simplex far_f tie_ind = (far_f, [0, 1, 2, 3, 4, 5, 6, 7])"
    by (simp add: far_f_def tie_ind_def sort_simplex_def N_PARAMS_def scan_min_def scan_step_def
        upt8 numeral_eq_Suc)
  have w: "snd (sort_simplex far_f tie_ind) ! N_PARAMS = 7"
    by (simp add: srt N_PARAMS_def)
  have c: "centroid far_x = [1, 0, 0, 0, 0, 0, 0]"
    by (simp add: centroid_def N_PARAMS_def far_x_def upt8 upt7)
  have e: "centroid_excluding_worst far_x 7 = [0, 0, 0, 0, 0, 0, 0]"
    by (simp add: centroid_excluding_worst_def N_PARAMS_def far_x_def upt8 upt7)
  show ?thesis by (simp add: w c e)
qed

subsection \<open>Reduction over a block and the stored best fit\<close>


lemma red_ok_step:
  assumes "red_ok k s_f H s"
  shows "red_ok (Suc k) s_f H (reduce_step s_f k s)"
proof -
  obtain smin tmin where s: "s = (smin, tmin)" by (cases s)
  show ?thesis
  proof (cases "s_f ! k < smin")
    case True
    then have st: "reduce_step s_f k s = (s_f ! k, k)" by (simp add: reduce_step_def s)
    have H: "smin \<le> H" using assms unfolding red_ok_def s by auto
    have lo: "\<forall>j<k. smin \<le> s_f ! j" using assms unfolding red_ok_def s by auto
    have "\<forall>j<Suc k. s_f ! k \<le> s_f ! j" using lo True by (auto simp: less_Suc_eq)
    moreover have "\<forall>j<k. s_f ! k < s_f ! j" using lo True by auto
    ultimately show ?thesis unfolding st red_ok_def using True H by simp
  next
    case False
    then have st: "reduce_step s_f k s = (smin, tmin)" by (simp add: reduce_step_def s)
    have "red_ok (Suc k) s_f H (smin, tmin)"
      using assms False unfolding red_ok_def s by (auto simp: less_Suc_eq)
    then show ?thesis by (simp add: st)
  qed
qed

lemma red_ok_fold: "red_ok k s_f H (fold (reduce_step s_f) [0..<k] (H, 0))"
proof (induction k)
  case 0
  show ?case by (simp add: red_ok_def)
next
  case (Suc k)
  then show ?case using red_ok_step [of k s_f H] by simp
qed

lemma serial_reduction_ok: "red_ok (length s_f) s_f (HUGE mc) (serial_reduction mc s_f)"
  unfolding serial_reduction_def by (rule red_ok_fold)

lemma store_best_le: "store_best mc d s_f \<le> d"
  by (simp add: store_best_def split: prod.split)

lemma launches_le: "launches mc d hist \<le> d"
proof (induction hist arbitrary: d)
  case Nil
  show ?case by simp
next
  case (Cons s_f rest)
  have "launches mc (store_best mc d s_f) rest \<le> store_best mc d s_f" by (rule Cons.IH)
  also have "\<dots> \<le> d" by (rule store_best_le)
  finally show ?case by simp
qed

lemma launches_snoc: "launches mc d (hist @ [s_f]) = store_best mc (launches mc d hist) s_f"
  by (induction hist arbitrary: d) simp_all

lemma reachable_le: "launches mc setup_kernel hist \<le> 10 ^ 30"
  using launches_le [of mc setup_kernel hist] by (simp add: setup_kernel_def)

text \<open>
  Claim C4.  For a block with at least one thread whose values \<open>s_f\<close> are all below the
  start value \<open>HUGE\<close> of the reduction: the reduction returns the least value of \<open>s_f\<close>
  and the lowest thread index that has it; the stored best value is replaced by that
  minimum exactly when the minimum is strictly smaller, and is left as it was otherwise;
  so the stored value never increases from one launch to the next; and the stored value,
  which \<^verbatim>\<open>setup_kernel\<close> starts at \<open>1e30\<close>, is never above \<open>1e30\<close>, so the value \<open>1e30\<close> of
  a failed thread is never strictly smaller than it and never replaces it.
\<close>

theorem C4_best_fit_never_increases:
  assumes ne: "s_f \<noteq> []" and below: "\<forall>v \<in> set s_f. v < HUGE mc"
  shows "(case serial_reduction mc s_f of (smin, thread_min) \<Rightarrow>
            thread_min < length s_f \<and> s_f ! thread_min = smin
          \<and> (\<forall>j<length s_f. smin \<le> s_f ! j)
          \<and> (\<forall>j<thread_min. smin < s_f ! j)
          \<and> store_best mc d s_f = (if smin < d then smin else d))
       \<and> launches mc d (hist @ [s_f]) \<le> launches mc d hist
       \<and> launches mc setup_kernel hist \<le> 10 ^ 30
       \<and> thread_result True f ind = 10 ^ 30
       \<and> \<not> thread_result True f ind < launches mc setup_kernel hist
       \<and> (store_best mc (launches mc setup_kernel hist) s_f = launches mc setup_kernel hist
          \<or> store_best mc (launches mc setup_kernel hist) s_f < 10 ^ 30)"
proof -
  obtain smin tmin where sr: "serial_reduction mc s_f = (smin, tmin)"
    by (cases "serial_reduction mc s_f")
  have ok: "red_ok (length s_f) s_f (HUGE mc) (smin, tmin)"
    using serial_reduction_ok [of s_f mc] sr by simp
  have "0 < length s_f" using ne by simp
  moreover have "s_f ! 0 < HUGE mc" using below ne by (simp add: nth_mem)
  ultimately have "\<not> (\<forall>j<length s_f. HUGE mc \<le> s_f ! j)" by (auto simp: not_le)
  with ok have red: "tmin < length s_f" "s_f ! tmin = smin"
      "\<forall>j<length s_f. smin \<le> s_f ! j" "\<forall>j<tmin. smin < s_f ! j"
    unfolding red_ok_def by auto
  have sb: "store_best mc d s_f = (if smin < d then smin else d)"
    by (simp add: store_best_def sr)
  have part1: "case serial_reduction mc s_f of (smin, thread_min) \<Rightarrow>
            thread_min < length s_f \<and> s_f ! thread_min = smin
          \<and> (\<forall>j<length s_f. smin \<le> s_f ! j)
          \<and> (\<forall>j<thread_min. smin < s_f ! j)
          \<and> store_best mc d s_f = (if smin < d then smin else d)"
    unfolding sr using red sb by simp
  have mono: "launches mc d (hist @ [s_f]) \<le> launches mc d hist"
    by (simp add: launches_snoc store_best_le)
  have reach: "launches mc setup_kernel hist \<le> 10 ^ 30" by (rule reachable_le)
  have sent: "thread_result True f ind = 10 ^ 30" by (simp add: thread_result_def)
  have nodisp: "\<not> thread_result True f ind < launches mc setup_kernel hist"
    using reach sent by simp
  have keep: "store_best mc (launches mc setup_kernel hist) s_f = launches mc setup_kernel hist
          \<or> store_best mc (launches mc setup_kernel hist) s_f < 10 ^ 30"
    using reach by (auto simp: store_best_def split: prod.split)
  show ?thesis using part1 mono reach sent nodisp keep by blast
qed

theorem C4_best_fit_never_increases_witness:
  "demo_launch \<noteq> [] \<and> list_all (\<lambda>v. v < HUGE demo_macros) demo_launch
   \<and> serial_reduction demo_macros demo_launch = (2, 1)
   \<and> launches demo_macros setup_kernel [demo_launch] = 2
   \<and> launches demo_macros setup_kernel [demo_launch, failed_launch] = 2"
proof -
  have ne: "demo_launch \<noteq> []" by (simp add: demo_launch_def)
  have all: "list_all (\<lambda>v. v < HUGE demo_macros) demo_launch"
    by (simp add: demo_launch_def demo_macros_def)
  have below: "\<forall>v \<in> set demo_launch. v < HUGE demo_macros"
    using all by (simp add: list_all_iff)
  note c = C4_best_fit_never_increases [OF ne below, of setup_kernel "[]" "[]" "[]"]
  have u3: "[0..<3] = [0, 1, 2]" by (simp add: upt_rec)
  have sr: "serial_reduction demo_macros demo_launch = (2, 1)"
    by (simp add: serial_reduction_def reduce_step_def demo_launch_def demo_macros_def u3)
  have l1: "launches demo_macros setup_kernel [demo_launch] = 2"
    using c sr by (simp add: setup_kernel_def)
  have srf: "serial_reduction demo_macros failed_launch = (10 ^ 30, 0)"
    by (simp add: serial_reduction_def reduce_step_def failed_launch_def demo_macros_def u3)
  have l2: "launches demo_macros setup_kernel [demo_launch, failed_launch] = 2"
    using l1 by (simp add: store_best_def srf)
  show ?thesis using ne all sr l1 l2 by blast
qed

subsection \<open>Domain check of x2params\<close>


lemma breach_no_lam:
  "P_periodic row \<noteq> PERIODIC_LAM mc \<Longrightarrow> breach mc row L1 xi = breach mc row L2 xi"
  by (auto simp: breach_def)

lemma breach_inside: "0 \<le> xi \<Longrightarrow> xi \<le> 1 \<Longrightarrow> \<not> breach mc row L xi"
  by (auto simp: breach_def)

lemma check_from_layout:
  assumes uniq: "\<forall>j<n. (P_type (sProperty ! j) = T_Es mc) = (j = iEs)"
      and order: "\<forall>j<iEs. P_periodic (sProperty ! j) \<noteq> PERIODIC_LAM mc"
      and ik: "i + k = n"
      and flag: "iEs < i \<longrightarrow> LAM = (x ! iEs \<ge> 0.5)"
  shows "fst (check_from mc sProperty x k i LAM)
           = (\<exists>j. i \<le> j \<and> j < n \<and> breach mc (sProperty ! j) (x ! iEs \<ge> 0.5) (x ! j))"
  using ik flag
proof (induction k arbitrary: i LAM)
  case 0
  then show ?case by auto
next
  case (Suc k)
  have i_lt: "i < n" using Suc.prems(1) by simp
  define LAM' where "LAM' = (if P_type (sProperty ! i) = T_Es mc then x ! i \<ge> 0.5 else LAM)"
  have es: "(P_type (sProperty ! i) = T_Es mc) = (i = iEs)" using uniq i_lt by simp
  have flag': "iEs < Suc i \<longrightarrow> LAM' = (x ! iEs \<ge> 0.5)"
    using Suc.prems(2) es unfolding LAM'_def by (auto simp: less_Suc_eq)
  have here: "breach mc (sProperty ! i) LAM' (x ! i)
      = breach mc (sProperty ! i) (x ! iEs \<ge> 0.5) (x ! i)"
  proof (cases "i < iEs")
    case True
    then show ?thesis using order breach_no_lam by blast
  next
    case False
    then have "iEs < Suc i" by simp
    then show ?thesis using flag' by simp
  qed
  have step: "check_from mc sProperty x (Suc k) i LAM
      = (if breach mc (sProperty ! i) LAM' (x ! i) then (True, LAM')
         else check_from mc sProperty x k (Suc i) LAM')"
    by (simp add: LAM'_def Let_def)
  have IH: "fst (check_from mc sProperty x k (Suc i) LAM')
      = (\<exists>j. Suc i \<le> j \<and> j < n \<and> breach mc (sProperty ! j) (x ! iEs \<ge> 0.5) (x ! j))"
    using Suc.IH [of "Suc i" LAM'] Suc.prems(1) flag' by simp
  show ?case
  proof (cases "breach mc (sProperty ! i) LAM' (x ! i)")
    case True
    then show ?thesis using step here i_lt by auto
  next
    case False
    then have "fst (check_from mc sProperty x (Suc k) i LAM)
        = (\<exists>j. Suc i \<le> j \<and> j < n \<and> breach mc (sProperty ! j) (x ! iEs \<ge> 0.5) (x ! j))"
      using step IH by simp
    also have "\<dots> = (\<exists>j. i \<le> j \<and> j < n \<and> breach mc (sProperty ! j) (x ! iEs \<ge> 0.5) (x ! j))"
      using False here by (metis Suc_leD Suc_leI le_neq_implies_less)
    finally show ?thesis .
  qed
qed

lemma x2params_rc:
  "fst (x2params mc sLimits sProperty sTypes x params loc0)
     = (if fst (check_from mc sProperty x N_PARAMS 0 False) then 1 else 0)"
  by (cases "check_from mc sProperty x N_PARAMS 0 False") (auto simp: x2params_def)

lemma x2params_reject_keeps:
  "fst (check_from mc sProperty x N_PARAMS 0 False)
     \<Longrightarrow> x2params mc sLimits sProperty sTypes x params loc0 = (1, params)"
  by (cases "check_from mc sProperty x N_PARAMS 0 False") (auto simp: x2params_def)

lemma eval_candidate_reject:
  "fst (x2params mc sLimits sProperty sTypes x params loc0) \<noteq> 0
     \<Longrightarrow> eval_candidate mc sLimits sProperty sTypes loc0 chi2 x (params, dV) = (None, params, dV)"
  using x2params_rc [of mc sLimits sProperty sTypes x params loc0]
    x2params_reject_keeps [of mc sProperty x sLimits sTypes params loc0]
  by (auto simp: eval_candidate_def split: if_splits)

text \<open>
  Claim C3.  In the default build, for a parameter table with one slot \<open>iEs\<close> of type
  \<open>T_Es\<close> that no slot of class \<open>PERIODIC_LAM\<close> precedes (the order of the slots that
  the codec assumes), \<^verbatim>\<open>x2params\<close> returns a non-zero code if and only if some coordinate
  is strictly below 0 with class \<open>HARD_LEFT\<close> or \<open>HARD_BOTH\<close> (or \<open>PERIODIC_LAM\<close> in the
  short-axis mode, \<open>x[iEs] < 0.5\<close>), or strictly above 1 with class \<open>HARD_RIGHT\<close> or
  \<open>HARD_BOTH\<close> (or \<open>PERIODIC_LAM\<close> in the short-axis mode).  The code is 0 or 1; a
  candidate with all coordinates in \<open>[0, 1]\<close>, the ends included, is accepted; and for a
  rejected candidate the array \<open>params\<close> is untouched and the evaluation of the candidate
  in \<^verbatim>\<open>chi2_gpu\<close> gives no fit value, whatever \<^verbatim>\<open>chi2one\<close> would compute: it is not called.
\<close>

theorem C3_x2params_rejects_iff_breach:
  assumes es: "iEs < N_PARAMS"
      and uniq: "\<forall>j<N_PARAMS. (P_type (sProperty ! j) = T_Es mc) = (j = iEs)"
      and order: "\<forall>j<iEs. P_periodic (sProperty ! j) \<noteq> PERIODIC_LAM mc"
  shows "((fst (x2params mc sLimits sProperty sTypes x params loc0) \<noteq> 0) =
           (\<exists>i<N_PARAMS.
               x ! i < 0 \<and> (P_periodic (sProperty ! i) = HARD_BOTH mc
                            \<or> P_periodic (sProperty ! i) = HARD_LEFT mc
                            \<or> x ! iEs < 1 / 2 \<and> P_periodic (sProperty ! i) = PERIODIC_LAM mc)
             \<or> x ! i > 1 \<and> (P_periodic (sProperty ! i) = HARD_BOTH mc
                            \<or> P_periodic (sProperty ! i) = HARD_RIGHT mc
                            \<or> x ! iEs < 1 / 2 \<and> P_periodic (sProperty ! i) = PERIODIC_LAM mc)))
       \<and> (fst (x2params mc sLimits sProperty sTypes x params loc0) = 0
          \<or> fst (x2params mc sLimits sProperty sTypes x params loc0) = 1)
       \<and> ((\<forall>i<N_PARAMS. 0 \<le> x ! i \<and> x ! i \<le> 1) \<longrightarrow>
             fst (x2params mc sLimits sProperty sTypes x params loc0) = 0)
       \<and> (fst (x2params mc sLimits sProperty sTypes x params loc0) \<noteq> 0 \<longrightarrow>
             x2params mc sLimits sProperty sTypes x params loc0 = (1, params)
           \<and> eval_candidate mc sLimits sProperty sTypes loc0 chi2 x (params, dV)
               = (None, params, dV)
           \<and> init_eval (eval_candidate mc sLimits sProperty sTypes loc0 chi2) (x # vs) j
                 (f, params, dV) = (True, f, params, dV))"
proof -
  let ?rc = "fst (x2params mc sLimits sProperty sTypes x params loc0)"
  let ?rej = "fst (check_from mc sProperty x N_PARAMS 0 False)"
  have rc: "?rc = (if ?rej then 1 else 0)" by (rule x2params_rc)
  have lay: "?rej = (\<exists>j. 0 \<le> j \<and> j < N_PARAMS
                 \<and> breach mc (sProperty ! j) (x ! iEs \<ge> 0.5) (x ! j))"
    by (rule check_from_layout [OF uniq order]) simp_all
  have iff: "(?rc \<noteq> 0) =
           (\<exists>i<N_PARAMS.
               x ! i < 0 \<and> (P_periodic (sProperty ! i) = HARD_BOTH mc
                            \<or> P_periodic (sProperty ! i) = HARD_LEFT mc
                            \<or> x ! iEs < 1 / 2 \<and> P_periodic (sProperty ! i) = PERIODIC_LAM mc)
             \<or> x ! i > 1 \<and> (P_periodic (sProperty ! i) = HARD_BOTH mc
                            \<or> P_periodic (sProperty ! i) = HARD_RIGHT mc
                            \<or> x ! iEs < 1 / 2 \<and> P_periodic (sProperty ! i) = PERIODIC_LAM mc))"
    unfolding rc lay breach_def by (simp add: not_le)
  have code: "?rc = 0 \<or> ?rc = 1" unfolding rc by simp
  have inside: "(\<forall>i<N_PARAMS. 0 \<le> x ! i \<and> x ! i \<le> 1) \<longrightarrow> ?rc = 0"
    unfolding rc lay using breach_inside by auto
  have keep: "?rc \<noteq> 0 \<longrightarrow> x2params mc sLimits sProperty sTypes x params loc0 = (1, params)"
    using rc x2params_reject_keeps [of mc sProperty x sLimits sTypes params loc0]
    by (auto split: if_splits)
  have noev: "?rc \<noteq> 0 \<longrightarrow> eval_candidate mc sLimits sProperty sTypes loc0 chi2 x (params, dV)
               = (None, params, dV)"
    using eval_candidate_reject by blast
  have ini: "?rc \<noteq> 0 \<longrightarrow> init_eval (eval_candidate mc sLimits sProperty sTypes loc0 chi2) (x # vs) j
                 (f, params, dV) = (True, f, params, dV)"
    using noev by simp
  show ?thesis using iff code inside keep noev ini by blast
qed

lemma demo_uniq_Es:
  "\<forall>j<N_PARAMS. (P_type (demo_property ! j) = T_Es demo_macros) = (j = 5)"
  by (simp add: N_PARAMS_def demo_property_def demo_row_def demo_macros_def
      eval_nat_numeral All_less_Suc)

lemma demo_order_Es:
  "\<forall>j<5. P_periodic (demo_property ! j) \<noteq> PERIODIC_LAM demo_macros"
  by (simp add: demo_property_def demo_row_def demo_macros_def eval_nat_numeral All_less_Suc)

theorem C3_x2params_rejects_iff_breach_witness:
  "(5::nat) < N_PARAMS
   \<and> P_type (demo_property ! 5) = T_Es demo_macros
   \<and> sam_left_x ! 6 < 0 \<and> sam_left_x ! 5 < 1 / 2
   \<and> P_periodic (demo_property ! 6) = PERIODIC_LAM demo_macros
   \<and> x2params demo_macros demo_limits demo_property demo_types sam_left_x zero7 demo_locals
       = (1, zero7)
   \<and> eval_candidate demo_macros demo_limits demo_property demo_types demo_locals
        (\<lambda>p dV. (0, dV)) sam_left_x (zero7, []) = (None, zero7, [])"
proof -
  have es: "(5::nat) < N_PARAMS" by (simp add: N_PARAMS_def)
  have t: "P_type (demo_property ! 5) = T_Es demo_macros"
    by (simp add: demo_property_def demo_row_def demo_macros_def)
  have x6: "sam_left_x ! 6 < 0" and x5: "sam_left_x ! 5 < 1 / 2"
    by (simp_all add: sam_left_x_def)
  have p6: "P_periodic (demo_property ! 6) = PERIODIC_LAM demo_macros"
    by (simp add: demo_property_def demo_row_def demo_macros_def)
  note c = C3_x2params_rejects_iff_breach [OF es demo_uniq_Es demo_order_Es,
      of demo_limits demo_types sam_left_x zero7 demo_locals "\<lambda>p dV. (0, dV)" "[]" "[]" 0 "[]"]
  have "\<exists>i<N_PARAMS.
               sam_left_x ! i < 0 \<and> (P_periodic (demo_property ! i) = HARD_BOTH demo_macros
                            \<or> P_periodic (demo_property ! i) = HARD_LEFT demo_macros
                            \<or> sam_left_x ! 5 < 1 / 2 \<and> P_periodic (demo_property ! i) = PERIODIC_LAM demo_macros)
             \<or> sam_left_x ! i > 1 \<and> (P_periodic (demo_property ! i) = HARD_BOTH demo_macros
                            \<or> P_periodic (demo_property ! i) = HARD_RIGHT demo_macros
                            \<or> sam_left_x ! 5 < 1 / 2 \<and> P_periodic (demo_property ! i) = PERIODIC_LAM demo_macros)"
    using x6 x5 p6 by (intro exI [of _ 6]) (simp add: N_PARAMS_def)
  then have rej: "fst (x2params demo_macros demo_limits demo_property demo_types sam_left_x zero7
      demo_locals) \<noteq> 0"
    using c by blast
  have r1: "x2params demo_macros demo_limits demo_property demo_types sam_left_x zero7 demo_locals
       = (1, zero7)" using c rej by blast
  have r2: "eval_candidate demo_macros demo_limits demo_property demo_types demo_locals
        (\<lambda>p dV. (0, dV)) sam_left_x (zero7, []) = (None, zero7, [])" using c rej by blast
  show ?thesis using es t x6 x5 p6 r1 r2 by blast
qed

subsection \<open>Round trip of the independent parameters\<close>


lemma fold_slots_nth:
  assumes other: "\<And>j s. j \<noteq> i \<Longrightarrow> fst (step j s) ! i = fst s ! i"
      and i: "i < n"
  shows "fst (fold step [0..<n] s) ! i = fst (step i (fold step [0..<i] s)) ! i"
  using i
proof (induction n)
  case 0
  then show ?case by simp
next
  case (Suc n)
  show ?case
  proof (cases "i = n")
    case True
    then show ?thesis by simp
  next
    case False
    then have "i < n" using Suc.prems by simp
    then have "fst (fold step [0..<n] s) ! i = fst (step i (fold step [0..<i] s)) ! i"
      by (rule Suc.IH)
    moreover have "fst (fold step [0..<Suc n] s) ! i = fst (fold step [0..<n] s) ! i"
      using other [of n "fold step [0..<n] s"] False by simp
    ultimately show ?thesis by simp
  qed
qed

lemma fold_slots_length:
  assumes len: "\<And>j s. length (fst (step j s)) = length (fst s)"
  shows "length (fst (fold step [0..<n] s)) = length (fst s)"
  by (induction n) (simp_all add: len)

lemma params2x_slot_other:
  "j \<noteq> i \<Longrightarrow>
   fst (params2x_slot mc sLimits sProperty params b c Is' Ii' j s) ! i = fst s ! i"
  by (cases s) (simp add: params2x_slot_def Let_def)

lemma params2x_slot_length:
  "length (fst (params2x_slot mc sLimits sProperty params b c Is' Ii' j s)) = length (fst s)"
  by (cases s) (simp add: params2x_slot_def Let_def)

lemma x2params_slot_other:
  "j \<noteq> i \<Longrightarrow> fst (x2params_slot mc sLimits sProperty sTypes LAM x j s) ! i = fst s ! i"
  by (cases s) (simp add: x2params_slot_def Let_def)

lemma x2params_slot_length:
  "length (fst (x2params_slot mc sLimits sProperty sTypes LAM x j s)) = length (fst s)"
  by (cases s) (simp add: x2params_slot_def Let_def)

text \<open>The coordinate that \<^verbatim>\<open>params2x\<close> writes for a free independent slot.\<close>

lemma params2x_independent:
  assumes i: "i < N_PARAMS" and lenx: "length x0 = N_PARAMS"
      and nonfrozen: "P_frozen (sProperty ! i) = 0"
      and indep: "P_independent (sProperty ! i) = 1"
  shows "params2x mc sLimits sProperty sTypes x0 params LAM0 i_Es0 ! i =
           (if P_periodic (sProperty ! i) = 1
            then params ! i / (2 * PI) - real_of_int \<lfloor>params ! i / (2 * PI)\<rfloor>
            else ((if P_type (sProperty ! i) = T_c_tumb mc then ln (params ! i) else params ! i)
                    - sLimits 0 (P_type (sProperty ! i)))
                 / (sLimits 1 (P_type (sProperty ! i)) - sLimits 0 (P_type (sProperty ! i))))"
proof -
  define b where "b = params ! sTypes (T_b_tumb mc) 0"
  define c where "c = params ! sTypes (T_c_tumb mc) 0"
  define step where "step = params2x_slot mc sLimits sProperty params b c (Is_of b c) (Ii_of b c)"
  define s where "s = fold step [0..<i] (x0, LAM0, i_Es0)"
  have len: "length (fst s) = N_PARAMS"
    unfolding s_def step_def using fold_slots_length [of "params2x_slot mc sLimits sProperty params b c (Is_of b c) (Ii_of b c)" i "(x0, LAM0, i_Es0)"]
      params2x_slot_length lenx by simp
  have "params2x mc sLimits sProperty sTypes x0 params LAM0 i_Es0 ! i
      = fst (fold step [0..<N_PARAMS] (x0, LAM0, i_Es0)) ! i"
    by (simp add: params2x_def Let_def step_def b_def c_def)
  also have "\<dots> = fst (step i s) ! i"
    unfolding s_def step_def
    by (rule fold_slots_nth [OF params2x_slot_other i])
  also have "\<dots> = (if P_periodic (sProperty ! i) = 1
            then params ! i / (2 * PI) - real_of_int \<lfloor>params ! i / (2 * PI)\<rfloor>
            else ((if P_type (sProperty ! i) = T_c_tumb mc then ln (params ! i) else params ! i)
                    - sLimits 0 (P_type (sProperty ! i)))
                 / (sLimits 1 (P_type (sProperty ! i)) - sLimits 0 (P_type (sProperty ! i))))"
    using len i nonfrozen indep
    by (cases s) (simp add: step_def params2x_slot_def Let_def)
  finally show ?thesis .
qed

text \<open>The value that \<^verbatim>\<open>x2params\<close> stores for an independent slot of a general class.\<close>

lemma x2params_independent:
  assumes i: "i < N_PARAMS" and lenp: "length params0 = N_PARAMS"
      and acc: "fst (x2params mc sLimits sProperty sTypes x params0 loc0) = 0"
      and tb: "P_type (sProperty ! i) \<noteq> T_b_tumb mc"
      and te: "P_type (sProperty ! i) \<noteq> T_Es mc"
      and tpsi: "P_type (sProperty ! i) \<noteq> T_psi_0 mc"
      and indep: "P_independent (sProperty ! i) = 1"
  shows "snd (x2params mc sLimits sProperty sTypes x params0 loc0) ! i =
           (if P_periodic (sProperty ! i) = PERIODIC mc then x ! i * 2 * PI
            else (let v = x ! i * (sLimits 1 (P_type (sProperty ! i)) - sLimits 0 (P_type (sProperty ! i)))
                          + sLimits 0 (P_type (sProperty ! i))
                  in if P_type (sProperty ! i) = T_c_tumb mc then exp v else v))"
proof -
  obtain rej LAM where ch: "check_from mc sProperty x N_PARAMS 0 False = (rej, LAM)"
    by (cases "check_from mc sProperty x N_PARAMS 0 False")
  have nrej: "\<not> rej" using acc ch by (auto simp: x2params_def split: if_splits)
  define step where "step = x2params_slot mc sLimits sProperty sTypes LAM x"
  define s where "s = fold step [0..<i] (params0, loc0)"
  have len: "length (fst s) = N_PARAMS"
    unfolding s_def step_def
    using fold_slots_length [of "x2params_slot mc sLimits sProperty sTypes LAM x" i "(params0, loc0)"]
      x2params_slot_length lenp by simp
  have "snd (x2params mc sLimits sProperty sTypes x params0 loc0) ! i
      = fst (fold step [0..<N_PARAMS] (params0, loc0)) ! i"
    using nrej by (simp add: x2params_def ch step_def)
  also have "\<dots> = fst (step i s) ! i"
    unfolding s_def step_def
    by (rule fold_slots_nth [OF x2params_slot_other i])
  also have "\<dots> = (if P_periodic (sProperty ! i) = PERIODIC mc then x ! i * 2 * PI
            else (let v = x ! i * (sLimits 1 (P_type (sProperty ! i)) - sLimits 0 (P_type (sProperty ! i)))
                          + sLimits 0 (P_type (sProperty ! i))
                  in if P_type (sProperty ! i) = T_c_tumb mc then exp v else v))"
    using len i tb te tpsi indep
    by (cases s) (simp add: step_def x2params_slot_def Let_def)
  finally show ?thesis .
qed

lemma frac_unit: "0 \<le> (v::real) - real_of_int \<lfloor>v\<rfloor> \<and> v - real_of_int \<lfloor>v\<rfloor> \<le> 1"
  by linarith

lemma x2params_accepts_unit_cube:
  assumes "\<forall>j<N_PARAMS. 0 \<le> x ! j \<and> x ! j \<le> 1"
  shows "fst (x2params mc sLimits sProperty sTypes x params0 loc0) = 0"
proof -
  have "\<And>k i LAM. i + k = N_PARAMS \<Longrightarrow> \<not> fst (check_from mc sProperty x k i LAM)"
  proof -
    fix k i LAM show "i + k = N_PARAMS \<Longrightarrow> \<not> fst (check_from mc sProperty x k i LAM)"
    proof (induction k arbitrary: i LAM)
      case 0
      show ?case by simp
    next
      case (Suc k)
      have "i < N_PARAMS" using Suc.prems by simp
      then have nb: "\<And>L. \<not> breach mc (sProperty ! i) L (x ! i)"
        using assms by (auto simp: breach_def)
      show ?case using Suc.IH [of "Suc i"] Suc.prems nb by (simp add: Let_def)
    qed
  qed
  then have "\<not> fst (check_from mc sProperty x N_PARAMS 0 False)" by simp
  then show ?thesis
    by (cases "check_from mc sProperty x N_PARAMS 0 False") (auto simp: x2params_def)
qed

text \<open>
  Claim C2.  Let slot \<open>i\<close> be free (\<open>P_frozen = 0\<close>) and independent, of a type other
  than the dependent types \<open>b_tumb\<close>, \<open>Es\<close>, \<open>psi_0\<close>, with limits \<open>lo < hi\<close>, and let
  \<open>PERIODIC = 1\<close> (\<^verbatim>\<open>params2x\<close> tests the class against the literal 1).  If the slot is
  periodic, or its physical value \<open>p\<close> lies within the limits (for \<open>c_tumb\<close>: \<open>p > 0\<close> and
  \<open>ln p\<close> within the limits), then the coordinate that \<^verbatim>\<open>params2x\<close> writes is in
  \<open>[0, 1]\<close>, so this slot never causes a rejection; and whenever \<^verbatim>\<open>x2params\<close> accepts
  the encoded vector (as it does when all its coordinates are in \<open>[0, 1]\<close>) the value it
  stores in the slot is \<open>p\<close> again, for a periodic slot the canonical value
  \<open>p - 2 pi floor (p / (2 pi))\<close>.
\<close>

theorem C2_decode_encode_roundtrip:
  fixes mc :: macros and sLimits :: limits and sProperty :: "prow list" and sTypes :: stypes
    and x0 params :: "real list" and LAM0 :: bool and i_Es0 i :: nat
  defines "X \<equiv> params2x mc sLimits sProperty sTypes x0 params LAM0 i_Es0"
  defines "t \<equiv> P_type (sProperty ! i)"
  assumes i: "i < N_PARAMS" and lenx: "length x0 = N_PARAMS" and lenp: "length params0 = N_PARAMS"
      and nonfrozen: "P_frozen (sProperty ! i) = 0"
      and indep: "P_independent (sProperty ! i) = 1"
      and tb: "t \<noteq> T_b_tumb mc" and te: "t \<noteq> T_Es mc" and tpsi: "t \<noteq> T_psi_0 mc"
      and per1: "PERIODIC mc = 1"
      and lim: "sLimits 0 t < sLimits 1 t"
      and inlim: "P_periodic (sProperty ! i) = 1
                  \<or> (if t = T_c_tumb mc
                      then 0 < params ! i \<and> sLimits 0 t \<le> ln (params ! i) \<and> ln (params ! i) \<le> sLimits 1 t
                      else sLimits 0 t \<le> params ! i \<and> params ! i \<le> sLimits 1 t)"
  shows "0 \<le> X ! i \<and> X ! i \<le> 1
       \<and> (fst (x2params mc sLimits sProperty sTypes X params0 loc0) = 0 \<longrightarrow>
            snd (x2params mc sLimits sProperty sTypes X params0 loc0) ! i
              = (if P_periodic (sProperty ! i) = 1
                 then params ! i - 2 * pi * real_of_int \<lfloor>params ! i / (2 * pi)\<rfloor>
                 else params ! i))
       \<and> ((\<forall>j<N_PARAMS. 0 \<le> X ! j \<and> X ! j \<le> 1) \<longrightarrow>
            fst (x2params mc sLimits sProperty sTypes X params0 loc0) = 0)"
proof -
  let ?lo = "sLimits 0 t" and ?hi = "sLimits 1 t"
  let ?p = "params ! i"
  have d: "0 < ?hi - ?lo" using lim by simp
  have enc: "X ! i = (if P_periodic (sProperty ! i) = 1
            then ?p / (2 * PI) - real_of_int \<lfloor>?p / (2 * PI)\<rfloor>
            else ((if t = T_c_tumb mc then ln ?p else ?p) - ?lo) / (?hi - ?lo))"
    unfolding X_def t_def by (rule params2x_independent [OF i lenx nonfrozen indep])
  have range: "0 \<le> X ! i \<and> X ! i \<le> 1"
  proof (cases "P_periodic (sProperty ! i) = 1")
    case True
    then show ?thesis using enc frac_unit [of "?p / (2 * PI)"] by simp
  next
    case False
    define q where "q = (if t = T_c_tumb mc then ln ?p else ?p)"
    have q: "?lo \<le> q" "q \<le> ?hi" using inlim False unfolding q_def by (auto split: if_splits)
    have "X ! i = (q - ?lo) / (?hi - ?lo)" using enc False by (simp add: q_def)
    then show ?thesis using q d by simp
  qed
  have dec: "fst (x2params mc sLimits sProperty sTypes X params0 loc0) = 0 \<longrightarrow>
            snd (x2params mc sLimits sProperty sTypes X params0 loc0) ! i
              = (if P_periodic (sProperty ! i) = 1
                 then ?p - 2 * pi * real_of_int \<lfloor>?p / (2 * pi)\<rfloor>
                 else ?p)"
  proof
    assume acc: "fst (x2params mc sLimits sProperty sTypes X params0 loc0) = 0"
    have st: "snd (x2params mc sLimits sProperty sTypes X params0 loc0) ! i =
           (if P_periodic (sProperty ! i) = PERIODIC mc then X ! i * 2 * PI
            else (let v = X ! i * (?hi - ?lo) + ?lo
                  in if t = T_c_tumb mc then exp v else v))"
      unfolding t_def
      by (rule x2params_independent [OF i lenp acc tb [unfolded t_def] te [unfolded t_def]
            tpsi [unfolded t_def] indep])
    show "snd (x2params mc sLimits sProperty sTypes X params0 loc0) ! i
              = (if P_periodic (sProperty ! i) = 1
                 then ?p - 2 * pi * real_of_int \<lfloor>?p / (2 * pi)\<rfloor>
                 else ?p)"
    proof (cases "P_periodic (sProperty ! i) = 1")
      case True
      have "X ! i * 2 * PI = (?p / (2 * pi) - real_of_int \<lfloor>?p / (2 * pi)\<rfloor>) * (2 * pi)"
        using enc True by (simp add: PI_def)
      also have "\<dots> = ?p - 2 * pi * real_of_int \<lfloor>?p / (2 * pi)\<rfloor>"
        by (simp add: algebra_simps)
      finally show ?thesis using st True per1 by simp
    next
      case False
      define q where "q = (if t = T_c_tumb mc then ln ?p else ?p)"
      have xq: "X ! i = (q - ?lo) / (?hi - ?lo)" using enc False by (simp add: q_def)
      have v: "X ! i * (?hi - ?lo) + ?lo = q" using d by (simp add: xq)
      have "(if t = T_c_tumb mc then exp q else q) = ?p"
        using inlim False unfolding q_def by (auto split: if_splits)
      moreover have "(let v = X ! i * (?hi - ?lo) + ?lo in if t = T_c_tumb mc then exp v else v)
          = (if t = T_c_tumb mc then exp q else q)"
        by (simp only: Let_def v)
      ultimately show ?thesis using st False per1 by simp
    qed
  qed
  have cube: "(\<forall>j<N_PARAMS. 0 \<le> X ! j \<and> X ! j \<le> 1) \<longrightarrow>
            fst (x2params mc sLimits sProperty sTypes X params0 loc0) = 0"
    using x2params_accepts_unit_cube by blast
  show ?thesis using range dec cube by blast
qed

theorem C2_decode_encode_roundtrip_witness:
  "(2::nat) < N_PARAMS \<and> length zero7 = N_PARAMS
   \<and> P_frozen (demo_property ! 2) = 0 \<and> P_independent (demo_property ! 2) = 1
   \<and> PERIODIC demo_macros = 1
   \<and> demo_limits 0 (P_type (demo_property ! 2)) < demo_limits 1 (P_type (demo_property ! 2))
   \<and> demo_limits 0 (P_type (demo_property ! 2)) \<le> demo_params ! 2
   \<and> demo_params ! 2 \<le> demo_limits 1 (P_type (demo_property ! 2))
   \<and> params2x demo_macros demo_limits demo_property demo_types zero7 demo_params False 0 ! 2 = 1 / 2
   \<and> 0 \<le> params2x demo_macros demo_limits demo_property demo_types zero7 demo_params False 0 ! 2
   \<and> params2x demo_macros demo_limits demo_property demo_types zero7 demo_params False 0 ! 2 \<le> 1"
proof -
  have i: "(2::nat) < N_PARAMS" by (simp add: N_PARAMS_def)
  have len: "length zero7 = N_PARAMS" by (simp add: zero7_def N_PARAMS_def)
  have row: "demo_property ! 2 = demo_row 3 1 2" by (simp add: demo_property_def)
  have nf: "P_frozen (demo_property ! 2) = 0" and ind: "P_independent (demo_property ! 2) = 1"
    and tp: "P_type (demo_property ! 2) = 3" and pp: "P_periodic (demo_property ! 2) = 2"
    by (simp_all add: row demo_row_def)
  have per1: "PERIODIC demo_macros = 1" by (simp add: demo_macros_def)
  have lo: "demo_limits 0 3 = 0" and hi: "demo_limits 1 3 = 10" by (simp_all add: demo_limits_def)
  have p: "demo_params ! 2 = 5" by (simp add: demo_params_def)
  have tb: "P_type (demo_property ! 2) \<noteq> T_b_tumb demo_macros"
    and te: "P_type (demo_property ! 2) \<noteq> T_Es demo_macros"
    and tpsi: "P_type (demo_property ! 2) \<noteq> T_psi_0 demo_macros"
    and tc: "P_type (demo_property ! 2) \<noteq> T_c_tumb demo_macros"
    by (simp_all add: tp demo_macros_def)
  have lim: "demo_limits 0 (P_type (demo_property ! 2)) < demo_limits 1 (P_type (demo_property ! 2))"
    by (simp add: tp lo hi)
  have inl: "demo_limits 0 (P_type (demo_property ! 2)) \<le> demo_params ! 2"
    and inh: "demo_params ! 2 \<le> demo_limits 1 (P_type (demo_property ! 2))"
    by (simp_all add: tp lo hi p)
  have inlim: "P_periodic (demo_property ! 2) = 1
                  \<or> (if P_type (demo_property ! 2) = T_c_tumb demo_macros
                      then 0 < demo_params ! 2
                         \<and> demo_limits 0 (P_type (demo_property ! 2)) \<le> ln (demo_params ! 2)
                         \<and> ln (demo_params ! 2) \<le> demo_limits 1 (P_type (demo_property ! 2))
                      else demo_limits 0 (P_type (demo_property ! 2)) \<le> demo_params ! 2
                         \<and> demo_params ! 2 \<le> demo_limits 1 (P_type (demo_property ! 2)))"
    using tc inl inh by simp
  note c = C2_decode_encode_roundtrip [where mc = demo_macros and sLimits = demo_limits
      and sProperty = demo_property and sTypes = demo_types and ?x0.0 = zero7
      and params = demo_params and ?LAM0.0 = False and ?i_Es0.0 = 0 and i = 2
      and ?params0.0 = zero7 and ?loc0.0 = demo_locals,
      OF i len len nf ind tb te tpsi per1 lim inlim]
  have v: "params2x demo_macros demo_limits demo_property demo_types zero7 demo_params False 0 ! 2
      = 1 / 2"
    using params2x_independent [OF i len nf ind, of demo_macros demo_limits demo_types demo_params False 0]
    using tc by (simp add: pp tp lo hi p)
  show ?thesis using i len nf ind per1 lim inl inh v c by blast
qed

subsection \<open>The energy parameter and the rotational regime\<close>


lemma inertia_order:
  assumes c: "0 < c" and cb: "c < b" and b1: "b < (1::real)"
  shows "1 < Ii_of b c" and "Ii_of b c < Is_of b c"
proof -
  have b0: "0 < b" using c cb by simp
  have den: "0 < b * b + c * c" using b0 c by (simp add: add_pos_pos)
  have "b * b < 1 * 1" using b0 b1 by (intro mult_strict_mono) simp_all
  then have bb: "b * b < 1" by simp
  have cc: "c * c < b * b" using c cb by (intro mult_strict_mono) simp_all
  show "1 < Ii_of b c" unfolding Ii_of_def using den bb by (simp add: pos_less_divide_eq)
  show "Ii_of b c < Is_of b c" unfolding Ii_of_def Is_of_def using den cc
    by (simp add: divide_strict_right_mono)
qed

text \<open>The encoding of the energy parameter, as a function of \<open>Ii\<close>, \<open>Is\<close> and \<open>Es\<close>.\<close>

lemma params2x_Es:
  assumes i: "i < N_PARAMS" and lenx: "length x0 = N_PARAMS"
      and nonfrozen: "P_frozen (sProperty ! i) = 0"
      and dep: "P_independent (sProperty ! i) \<noteq> 1"
      and tp: "P_type (sProperty ! i) = T_Es mc"
      and ne: "T_Es mc \<noteq> T_b_tumb mc"
  shows "params2x mc sLimits sProperty sTypes x0 params LAM0 i_Es0 ! i =
           (if params ! i > 1 / Ii_of (params ! sTypes (T_b_tumb mc) 0) (params ! sTypes (T_c_tumb mc) 0)
            then 0.5 * ((params ! i - 1 / Ii_of (params ! sTypes (T_b_tumb mc) 0) (params ! sTypes (T_c_tumb mc) 0))
                        / (1 - 1 / Ii_of (params ! sTypes (T_b_tumb mc) 0) (params ! sTypes (T_c_tumb mc) 0)) + 1)
            else 0.5 * (params ! i - 1 / Is_of (params ! sTypes (T_b_tumb mc) 0) (params ! sTypes (T_c_tumb mc) 0))
                   / (1 / Ii_of (params ! sTypes (T_b_tumb mc) 0) (params ! sTypes (T_c_tumb mc) 0)
                      - 1 / Is_of (params ! sTypes (T_b_tumb mc) 0) (params ! sTypes (T_c_tumb mc) 0)))"
proof -
  define b where "b = params ! sTypes (T_b_tumb mc) 0"
  define c where "c = params ! sTypes (T_c_tumb mc) 0"
  define step where "step = params2x_slot mc sLimits sProperty params b c (Is_of b c) (Ii_of b c)"
  define s where "s = fold step [0..<i] (x0, LAM0, i_Es0)"
  have len: "length (fst s) = N_PARAMS"
    unfolding s_def step_def using fold_slots_length [of "params2x_slot mc sLimits sProperty params b c (Is_of b c) (Ii_of b c)" i "(x0, LAM0, i_Es0)"]
      params2x_slot_length lenx by simp
  have "params2x mc sLimits sProperty sTypes x0 params LAM0 i_Es0 ! i
      = fst (fold step [0..<N_PARAMS] (x0, LAM0, i_Es0)) ! i"
    by (simp add: params2x_def Let_def step_def b_def c_def)
  also have "\<dots> = fst (step i s) ! i"
    unfolding s_def step_def
    by (rule fold_slots_nth [OF params2x_slot_other i])
  also have "\<dots> = (if params ! i > 1 / Ii_of b c
            then 0.5 * ((params ! i - 1 / Ii_of b c) / (1 - 1 / Ii_of b c) + 1)
            else 0.5 * (params ! i - 1 / Is_of b c) / (1 / Ii_of b c - 1 / Is_of b c))"
    using len i nonfrozen dep tp ne
    by (cases s) (simp add: step_def params2x_slot_def Let_def)
  finally show ?thesis unfolding b_def c_def .
qed

lemma enc_Es_LAM:
  "1 / Ii' < Es \<Longrightarrow> enc_Es Ii' Is' Es = 0.5 * ((Es - 1 / Ii') / (1 - 1 / Ii') + 1)"
  by (simp add: enc_Es_def)

lemma enc_Es_SAM:
  "\<not> 1 / Ii' < Es \<Longrightarrow> enc_Es Ii' Is' Es = 0.5 * ((Es - 1 / Is') / (1 / Ii' - 1 / Is'))"
  by (simp add: enc_Es_def)

lemma enc_Es_facts:
  assumes I1: "1 < Ii'" and I2: "Ii' < Is'"
  shows "enc_Es Ii' Is' (1 / Ii') = 1 / 2"
    and "(1 / 2 < enc_Es Ii' Is' Es) = (1 / Ii' < Es)"
    and "(enc_Es Ii' Is' Es < 1 / 2) = (Es < 1 / Ii')"
    and "(enc_Es Ii' Is' Es \<le> 1) = (Es \<le> 1)"
    and "(0 \<le> enc_Es Ii' Is' Es) = (1 / Is' \<le> Es)"
proof -
  have i0: "0 < Ii'" and s0: "0 < Is'" using I1 I2 by simp_all
  have a: "0 < 1 - 1 / Ii'" using I1 by simp
  have inv: "1 / Is' < 1 / Ii'" using I2 i0 by (simp add: frac_less2)
  then have d: "0 < 1 / Ii' - 1 / Is'" by linarith
  have inv1: "1 / Ii' < 1" using I1 by simp
  define u where "u = (Es - 1 / Ii') / (1 - 1 / Ii')"
  define w where "w = (Es - 1 / Is') / (1 / Ii' - 1 / Is')"
  have u0: "(0 < u) = (1 / Ii' < Es)" unfolding u_def using a by (simp add: zero_less_divide_iff)
  have u1: "(u \<le> 1) = (Es \<le> 1)" unfolding u_def using a by (simp add: pos_divide_le_eq)
  have w0: "(0 \<le> w) = (1 / Is' \<le> Es)" unfolding w_def using d by (simp add: zero_le_divide_iff)
  have w1: "(w < 1) = (Es < 1 / Ii')" unfolding w_def using d by (simp add: pos_divide_less_eq)
  have w1': "(w \<le> 1) = (Es \<le> 1 / Ii')" unfolding w_def using d by (simp add: pos_divide_le_eq)
  have "1 / Ii' - 1 / Is' \<noteq> 0" using d by linarith
  then have "(1 / Ii' - 1 / Is') / (1 / Ii' - 1 / Is') = 1" by (rule divide_self)
  then have "enc_Es Ii' Is' (1 / Ii') = 0.5 * 1"
    using enc_Es_SAM [of Ii' "1 / Ii'" Is'] by simp
  then show "enc_Es Ii' Is' (1 / Ii') = 1 / 2" by simp
  have L: "1 / Ii' < Es \<Longrightarrow> enc_Es Ii' Is' Es = 0.5 * (u + 1)"
    unfolding u_def by (rule enc_Es_LAM)
  have S: "\<not> 1 / Ii' < Es \<Longrightarrow> enc_Es Ii' Is' Es = 0.5 * w"
    unfolding w_def by (rule enc_Es_SAM)
  show "(1 / 2 < enc_Es Ii' Is' Es) = (1 / Ii' < Es)"
  proof (cases "1 / Ii' < Es")
    case True
    have "(1 / 2 < enc_Es Ii' Is' Es) = (0 < u)" unfolding L [OF True] by argo
    then show ?thesis using u0 by simp
  next
    case False
    have "(1 / 2 < enc_Es Ii' Is' Es) = (\<not> w \<le> 1)" unfolding S [OF False] by argo
    then show ?thesis using False w1' by simp
  qed
  show "(enc_Es Ii' Is' Es < 1 / 2) = (Es < 1 / Ii')"
  proof (cases "1 / Ii' < Es")
    case True
    have "(enc_Es Ii' Is' Es < 1 / 2) = (\<not> 0 \<le> u)" unfolding L [OF True] by argo
    then show ?thesis using True u0 by auto
  next
    case False
    have "(enc_Es Ii' Is' Es < 1 / 2) = (w < 1)" unfolding S [OF False] by argo
    then show ?thesis using w1 by simp
  qed
  show "(enc_Es Ii' Is' Es \<le> 1) = (Es \<le> 1)"
  proof (cases "1 / Ii' < Es")
    case True
    have "(enc_Es Ii' Is' Es \<le> 1) = (u \<le> 1)" unfolding L [OF True] by argo
    then show ?thesis using u1 by simp
  next
    case False
    have "(enc_Es Ii' Is' Es \<le> 1) = (w \<le> 2)" unfolding S [OF False] by argo
    moreover have "w \<le> 1" using False w1' by simp
    moreover have "Es \<le> 1" using False inv1 by simp
    ultimately show ?thesis by simp
  qed
  show "(0 \<le> enc_Es Ii' Is' Es) = (1 / Is' \<le> Es)"
  proof (cases "1 / Ii' < Es")
    case True
    have "(0 \<le> enc_Es Ii' Is' Es) = (- 1 \<le> u)" unfolding L [OF True] by argo
    moreover have "0 < u" using True u0 by simp
    moreover have "1 / Is' \<le> Es" using True inv by simp
    ultimately show ?thesis by simp
  next
    case False
    have "(0 \<le> enc_Es Ii' Is' Es) = (0 \<le> w)" unfolding S [OF False] by argo
    then show ?thesis using w0 by simp
  qed
qed

lemma dec_Es_inverts:
  assumes I1: "1 < Ii'" and I2: "Ii' < Is'"
  shows "(if enc_Es Ii' Is' Es \<ge> 0.5
          then 2 * (enc_Es Ii' Is' Es - 0.5) * (1 - 1 / Ii') + 1 / Ii'
          else 2 * enc_Es Ii' Is' Es * (1 / Ii' - 1 / Is') + 1 / Is') = Es"
proof -
  have i0: "0 < Ii'" using I1 by simp
  have a: "1 - 1 / Ii' \<noteq> 0" using I1 by simp
  have "1 / Is' < 1 / Ii'" using I2 i0 by (simp add: frac_less2)
  then have d: "1 / Ii' - 1 / Is' \<noteq> 0" by linarith
  note f2 = enc_Es_facts(2) [OF I1 I2, of Es] and f3 = enc_Es_facts(3) [OF I1 I2, of Es]
  define u where "u = (Es - 1 / Ii') / (1 - 1 / Ii')"
  define w where "w = (Es - 1 / Is') / (1 / Ii' - 1 / Is')"
  have ua: "u * (1 - 1 / Ii') = Es - 1 / Ii'" unfolding u_def using a by simp
  have wd: "w * (1 / Ii' - 1 / Is') = Es - 1 / Is'" unfolding w_def using d by simp
  consider "1 / Ii' < Es" | "Es = 1 / Ii'" | "Es < 1 / Ii'" by linarith
  then show ?thesis
  proof cases
    case 1
    then have ge: "enc_Es Ii' Is' Es \<ge> 0.5" using f2 by simp
    have e: "enc_Es Ii' Is' Es = 0.5 * (u + 1)" unfolding u_def by (rule enc_Es_LAM [OF 1])
    have "2 * (enc_Es Ii' Is' Es - 0.5) = u" unfolding e by argo
    then have "2 * (enc_Es Ii' Is' Es - 0.5) * (1 - 1 / Ii') + 1 / Ii' = Es"
      using ua by simp
    then show ?thesis using ge by (simp only: if_True)
  next
    case 2
    have e: "enc_Es Ii' Is' Es = 1 / 2" unfolding 2 by (rule enc_Es_facts(1) [OF I1 I2])
    show ?thesis unfolding e using 2 by simp
  next
    case 3
    then have lt: "\<not> enc_Es Ii' Is' Es \<ge> 0.5" using f3 by simp
    have e: "enc_Es Ii' Is' Es = 0.5 * w" unfolding w_def by (rule enc_Es_SAM) (use 3 in simp)
    have "2 * enc_Es Ii' Is' Es = w" unfolding e by argo
    then have "2 * enc_Es Ii' Is' Es * (1 / Ii' - 1 / Is') + 1 / Is' = Es"
      using wd by simp
    then show ?thesis using lt by (simp only: if_False)
  qed
qed

lemma x2_slot_keeps_logc:
  "P_type (sProperty ! j) \<noteq> T_c_tumb mc \<Longrightarrow>
   log_c_tumb (snd (x2params_slot mc sLimits sProperty sTypes LAM x j s)) = log_c_tumb (snd s)"
  by (cases s) (simp add: x2params_slot_def Let_def)

lemma x2_slot_keeps_inertia:
  "P_type (sProperty ! j) \<noteq> T_b_tumb mc \<Longrightarrow>
   Ii (snd (x2params_slot mc sLimits sProperty sTypes LAM x j s)) = Ii (snd s)
   \<and> Is (snd (x2params_slot mc sLimits sProperty sTypes LAM x j s)) = Is (snd s)"
  by (cases s) (simp add: x2params_slot_def Let_def)

lemma fold_upt_preserve:
  assumes "\<And>j s. m \<le> j \<Longrightarrow> j < k \<Longrightarrow> Q s \<Longrightarrow> Q (step j s)" and "Q s"
  shows "Q (fold step [m..<k] s)"
  using assms(1)
proof (induction k)
  case 0
  show ?case using assms(2) by simp
next
  case (Suc k)
  show ?case
  proof (cases "m \<le> k")
    case True
    have "Q (fold step [m..<k] s)" using Suc.prems by (intro Suc.IH) simp
    then have "Q (step k (fold step [m..<k] s))" using Suc.prems True by simp
    then show ?thesis using True by simp
  next
    case False
    then show ?thesis using assms(2) by simp
  qed
qed

lemma fold_upt_split:
  assumes "m \<le> k"
  shows "fold step [0..<k] s = fold step [m..<k] (fold step [0..<m] s)"
proof -
  have "[0..<m + (k - m)] = [0..<m] @ [m..<m + (k - m)]"
    by (rule upt_add_eq_append) simp
  then have "[0..<k] = [0..<m] @ [m..<k]" using assms by simp
  then show ?thesis by simp
qed

lemma check_from_flag:
  assumes uniq: "\<forall>j<n. (P_type (sProperty ! j) = T_Es mc) = (j = iEs)"
      and es: "iEs < n"
      and ik: "i + k = n"
      and flag: "iEs < i \<longrightarrow> LAM = (x ! iEs \<ge> 0.5)"
      and acc: "\<not> fst (check_from mc sProperty x k i LAM)"
  shows "snd (check_from mc sProperty x k i LAM) = (x ! iEs \<ge> 0.5)"
  using ik flag acc
proof (induction k arbitrary: i LAM)
  case 0
  then show ?case using es by simp
next
  case (Suc k)
  have i_lt: "i < n" using Suc.prems(1) by simp
  define LAM' where "LAM' = (if P_type (sProperty ! i) = T_Es mc then x ! i \<ge> 0.5 else LAM)"
  have esi: "(P_type (sProperty ! i) = T_Es mc) = (i = iEs)" using uniq i_lt by simp
  have flag': "iEs < Suc i \<longrightarrow> LAM' = (x ! iEs \<ge> 0.5)"
    using Suc.prems(2) esi unfolding LAM'_def by (auto simp: less_Suc_eq)
  have step: "check_from mc sProperty x (Suc k) i LAM
      = (if breach mc (sProperty ! i) LAM' (x ! i) then (True, LAM')
         else check_from mc sProperty x k (Suc i) LAM')"
    by (simp add: LAM'_def Let_def)
  have nb: "\<not> breach mc (sProperty ! i) LAM' (x ! i)"
    using Suc.prems(3) step by (auto split: if_splits)
  have eq: "check_from mc sProperty x (Suc k) i LAM = check_from mc sProperty x k (Suc i) LAM'"
    using step nb by simp
  have "snd (check_from mc sProperty x k (Suc i) LAM') = (x ! iEs \<ge> 0.5)"
    using Suc.IH [of "Suc i" LAM'] Suc.prems(1) flag' Suc.prems(3) eq by simp
  then show ?case using eq by simp
qed

text \<open>
  The locals \<open>Ii\<close> and \<open>Is\<close> of \<^verbatim>\<open>x2params\<close> when the loop reaches the slot of \<open>Es\<close>:
  they are the moments of inertia of the decoded axes.
\<close>

lemma x2params_inertia_at_Es:
  fixes mc :: macros and sLimits :: limits and sProperty :: "prow list" and sTypes :: stypes
    and LAM :: bool and x params0 :: "real list"
  defines "step \<equiv> x2params_slot mc sLimits sProperty sTypes LAM x"
  assumes ord: "ic < ib" "ib < iEs" "iEs < N_PARAMS"
      and tc: "P_type (sProperty ! ic) = T_c_tumb mc"
      and tb: "P_type (sProperty ! ib) = T_b_tumb mc"
      and uc: "\<forall>j<N_PARAMS. P_type (sProperty ! j) = T_c_tumb mc \<longrightarrow> j = ic"
      and ub: "\<forall>j<N_PARAMS. P_type (sProperty ! j) = T_b_tumb mc \<longrightarrow> j = ib"
      and dist: "distinct [T_c_tumb mc, T_b_tumb mc, T_Es mc, T_psi_0 mc]"
      and cper: "P_periodic (sProperty ! ic) \<noteq> PERIODIC mc"
      and cind: "P_independent (sProperty ! ic) = 1"
      and st: "sTypes (T_c_tumb mc) (P_iseg (sProperty ! ib)) = ic"
      and len: "length params0 = N_PARAMS"
      and xc: "x ! ic * (sLimits 1 (T_c_tumb mc) - sLimits 0 (T_c_tumb mc)) + sLimits 0 (T_c_tumb mc) = ln c"
      and xb: "ln c * (x ! ib * (sLimits 1 (T_b_tumb mc) - sLimits 0 (T_b_tumb mc)) + sLimits 0 (T_b_tumb mc)) = ln b"
      and pos: "0 < c" "0 < b"
  shows "Ii (snd (fold step [0..<iEs] (params0, loc0))) = Ii_of b c
       \<and> Is (snd (fold step [0..<iEs] (params0, loc0))) = Is_of b c
       \<and> length (fst (fold step [0..<iEs] (params0, loc0))) = N_PARAMS"
proof -
  have lenall: "\<And>k. length (fst (fold step [0..<k] (params0, loc0))) = N_PARAMS"
    unfolding step_def
    using fold_slots_length [of "x2params_slot mc sLimits sProperty sTypes LAM x" _ "(params0, loc0)"]
      x2params_slot_length len by simp
  have icN: "ic < N_PARAMS" and ibN: "ib < N_PARAMS" using ord by simp_all
  \<comment> \<open>after the slot of \<open>c_tumb\<close>\<close>
  define s1 where "s1 = fold step [0..<ic] (params0, loc0)"
  define s2 where "s2 = step ic s1"
  have l1: "length (fst s1) = N_PARAMS" unfolding s1_def by (rule lenall)
  have s2c: "fst s2 ! ic = c \<and> log_c_tumb (snd s2) = ln c"
    using tc dist cper cind xc pos(1) l1 icN
    unfolding s2_def step_def by (cases s1) (simp add: x2params_slot_def Let_def)
  have s2eq: "s2 = fold step [0..<Suc ic] (params0, loc0)" by (simp add: s2_def s1_def)
  \<comment> \<open>up to the slot of \<open>b_tumb\<close>\<close>
  define s3 where "s3 = fold step [0..<ib] (params0, loc0)"
  have s3eq: "s3 = fold step [Suc ic..<ib] s2"
    unfolding s3_def s2eq using ord(1) by (intro fold_upt_split) simp
  have s3c: "fst s3 ! ic = c \<and> log_c_tumb (snd s3) = ln c"
    unfolding s3eq
  proof (rule fold_upt_preserve [where Q = "\<lambda>s :: real list \<times> x2_locals. fst s ! ic = c \<and> log_c_tumb (snd s) = ln c"])
    fix j and s :: "real list \<times> x2_locals" assume j: "Suc ic \<le> j" "j < ib"
      and Q: "fst s ! ic = c \<and> log_c_tumb (snd s) = ln c"
    have jn: "j \<noteq> ic" using j by simp
    have "j < N_PARAMS" using j ord by linarith
    then have jt: "P_type (sProperty ! j) \<noteq> T_c_tumb mc" using uc jn by blast
    show "fst (step j s) ! ic = c \<and> log_c_tumb (snd (step j s)) = ln c"
      unfolding step_def using Q x2params_slot_other [OF jn] x2_slot_keeps_logc [OF jt] by simp
  qed (rule s2c)
  have l3: "length (fst s3) = N_PARAMS" unfolding s3_def by (rule lenall)
  \<comment> \<open>the slot of \<open>b_tumb\<close>\<close>
  define s4 where "s4 = step ib s3"
  have icb: "ic \<noteq> ib" using ord by simp
  have s4i: "Ii (snd s4) = Ii_of b c \<and> Is (snd s4) = Is_of b c"
    using tb s3c xb pos(2) l3 ibN st icb
    unfolding s4_def step_def by (cases s3) (simp add: x2params_slot_def Let_def)
  have s4eq: "s4 = fold step [0..<Suc ib] (params0, loc0)" by (simp add: s4_def s3_def)
  \<comment> \<open>up to the slot of \<open>Es\<close>\<close>
  have s5eq: "fold step [0..<iEs] (params0, loc0) = fold step [Suc ib..<iEs] s4"
    unfolding s4eq using ord(2) by (intro fold_upt_split) simp
  have "Ii (snd (fold step [Suc ib..<iEs] s4)) = Ii_of b c
      \<and> Is (snd (fold step [Suc ib..<iEs] s4)) = Is_of b c"
  proof (rule fold_upt_preserve [where Q = "\<lambda>s :: real list \<times> x2_locals. Ii (snd s) = Ii_of b c \<and> Is (snd s) = Is_of b c"])
    fix j and s :: "real list \<times> x2_locals" assume j: "Suc ib \<le> j" "j < iEs"
      and Q: "Ii (snd s) = Ii_of b c \<and> Is (snd s) = Is_of b c"
    have "j < N_PARAMS" "j \<noteq> ib" using j ord by linarith+
    then have jt: "P_type (sProperty ! j) \<noteq> T_b_tumb mc" using ub by blast
    show "Ii (snd (step j s)) = Ii_of b c \<and> Is (snd (step j s)) = Is_of b c"
      unfolding step_def using Q x2_slot_keeps_inertia [OF jt] by simp
  qed (rule s4i)
  then have "Ii (snd (fold step [0..<iEs] (params0, loc0))) = Ii_of b c
      \<and> Is (snd (fold step [0..<iEs] (params0, loc0))) = Is_of b c"
    by (simp only: s5eq)
  then show ?thesis using lenall [of iEs] by blast
qed

lemma params2x_b_tumb:
  assumes i: "i < N_PARAMS" and lenx: "length x0 = N_PARAMS"
      and nonfrozen: "P_frozen (sProperty ! i) = 0"
      and dep: "P_independent (sProperty ! i) \<noteq> 1"
      and tp: "P_type (sProperty ! i) = T_b_tumb mc"
  shows "params2x mc sLimits sProperty sTypes x0 params LAM0 i_Es0 ! i =
           (ln (params ! sTypes (T_b_tumb mc) 0) / ln (params ! sTypes (T_c_tumb mc) 0)
              - sLimits 0 (T_b_tumb mc))
           / (sLimits 1 (T_b_tumb mc) - sLimits 0 (T_b_tumb mc))"
proof -
  define b where "b = params ! sTypes (T_b_tumb mc) 0"
  define c where "c = params ! sTypes (T_c_tumb mc) 0"
  define step where "step = params2x_slot mc sLimits sProperty params b c (Is_of b c) (Ii_of b c)"
  define s where "s = fold step [0..<i] (x0, LAM0, i_Es0)"
  have len: "length (fst s) = N_PARAMS"
    unfolding s_def step_def using fold_slots_length [of "params2x_slot mc sLimits sProperty params b c (Is_of b c) (Ii_of b c)" i "(x0, LAM0, i_Es0)"]
      params2x_slot_length lenx by simp
  have "params2x mc sLimits sProperty sTypes x0 params LAM0 i_Es0 ! i
      = fst (fold step [0..<N_PARAMS] (x0, LAM0, i_Es0)) ! i"
    by (simp add: params2x_def Let_def step_def b_def c_def)
  also have "\<dots> = fst (step i s) ! i"
    unfolding s_def step_def
    by (rule fold_slots_nth [OF params2x_slot_other i])
  also have "\<dots> = (ln b / ln c - sLimits 0 (T_b_tumb mc))
           / (sLimits 1 (T_b_tumb mc) - sLimits 0 (T_b_tumb mc))"
    using len i nonfrozen dep tp
    by (cases s) (simp add: step_def params2x_slot_def Let_def)
  finally show ?thesis unfolding b_def c_def .
qed

lemma x2params_Es_value:
  assumes uniq: "\<forall>j<N_PARAMS. (P_type (sProperty ! j) = T_Es mc) = (j = iEs)"
      and es: "iEs < N_PARAMS"
      and ne: "T_Es mc \<noteq> T_b_tumb mc"
      and lenp: "length params0 = N_PARAMS"
      and acc: "fst (x2params mc sLimits sProperty sTypes x params0 loc0) = 0"
  shows "snd (x2params mc sLimits sProperty sTypes x params0 loc0) ! iEs =
           (let loc = snd (fold (x2params_slot mc sLimits sProperty sTypes (x ! iEs \<ge> 0.5) x)
                              [0..<iEs] (params0, loc0))
            in if x ! iEs \<ge> 0.5 then 2 * (x ! iEs - 0.5) * (1 - 1 / Ii loc) + 1 / Ii loc
               else 2 * x ! iEs * (1 / Ii loc - 1 / Is loc) + 1 / Is loc)"
proof -
  obtain rej LAM where ch: "check_from mc sProperty x N_PARAMS 0 False = (rej, LAM)"
    by (cases "check_from mc sProperty x N_PARAMS 0 False")
  have nrej: "\<not> rej" using acc ch by (auto simp: x2params_def split: if_splits)
  have "snd (check_from mc sProperty x N_PARAMS 0 False) = (x ! iEs \<ge> 0.5)"
    by (rule check_from_flag [OF uniq es]) (use ch nrej in simp_all)
  then have LAM: "LAM = (x ! iEs \<ge> 0.5)" using ch by simp
  define step where "step = x2params_slot mc sLimits sProperty sTypes LAM x"
  define s where "s = fold step [0..<iEs] (params0, loc0)"
  have len: "length (fst s) = N_PARAMS"
    unfolding s_def step_def
    using fold_slots_length [of "x2params_slot mc sLimits sProperty sTypes LAM x" iEs "(params0, loc0)"]
      x2params_slot_length lenp by simp
  have tp: "P_type (sProperty ! iEs) = T_Es mc" using uniq es by simp
  have "snd (x2params mc sLimits sProperty sTypes x params0 loc0) ! iEs
      = fst (fold step [0..<N_PARAMS] (params0, loc0)) ! iEs"
    using nrej by (simp add: x2params_def ch step_def)
  also have "\<dots> = fst (step iEs s) ! iEs"
    unfolding s_def step_def
    by (rule fold_slots_nth [OF x2params_slot_other es])
  also have "\<dots> = (if LAM then 2 * (x ! iEs - 0.5) * (1 - 1 / Ii (snd s)) + 1 / Ii (snd s)
               else 2 * x ! iEs * (1 / Ii (snd s) - 1 / Is (snd s)) + 1 / Is (snd s))"
    using len es tp ne
    by (cases s) (simp add: step_def x2params_slot_def Let_def)
  finally show ?thesis unfolding s_def step_def LAM by (simp add: Let_def)
qed

text \<open>
  Claim C8.  Take a parameter table in the order that the codec assumes: one
  free independent slot \<open>ic\<close> of type \<open>c_tumb\<close>, then one free dependent slot \<open>ib\<close> of
  type \<open>b_tumb\<close>, then one free dependent slot \<open>iEs\<close> of type \<open>Es\<close>; let the axes satisfy
  \<open>0 < c < b < 1\<close>, and let \<open>Ii\<close>, \<open>Is\<close> be the moments of inertia that \<^verbatim>\<open>params2x\<close>
  derives from them.  Then \<open>1 < Ii < Is\<close>; an energy parameter \<open>Es = 1 / Ii\<close> is encoded
  as exactly \<open>1 / 2\<close>; the encoded coordinate is above \<open>1 / 2\<close> exactly when \<open>Es > 1 / Ii\<close>
  and below \<open>1 / 2\<close> exactly when \<open>Es < 1 / Ii\<close>; over the range \<open>1 / Is \<le> Es \<le> 1\<close> of
  the energy parameter (outside of it the initial angle \<open>theta\<close> of line 222 is the
  arcsine of the root of a negative number or of a number above 1) the coordinate lies in
  \<open>(1/2, 1]\<close> for \<open>Es > 1 / Ii\<close> and in \<open>[0, 1/2)\<close> for \<open>Es < 1 / Ii\<close>; and when
  \<^verbatim>\<open>x2params\<close> accepts the encoded vector, its flag \<open>LAM\<close> is set exactly when the
  coordinate is at least \<open>1 / 2\<close> and the value it stores in the slot is \<open>Es\<close> again.
\<close>

theorem C8_energy_split_consistent:
  fixes mc :: macros and sLimits :: limits and sProperty :: "prow list" and sTypes :: stypes
    and x0 params params0 :: "real list" and LAM0 :: bool and i_Es0 ic ib iEs :: nat
  defines "X \<equiv> params2x mc sLimits sProperty sTypes x0 params LAM0 i_Es0"
  defines "Ii' \<equiv> Ii_of (params ! ib) (params ! ic)"
  defines "Is' \<equiv> Is_of (params ! ib) (params ! ic)"
  assumes ord: "ic < ib" "ib < iEs" "iEs < N_PARAMS"
      and dist: "distinct [T_c_tumb mc, T_b_tumb mc, T_Es mc, T_psi_0 mc]"
      and per1: "PERIODIC mc = 1"
      and crow: "P_type (sProperty ! ic) = T_c_tumb mc" "P_frozen (sProperty ! ic) = 0"
                "P_independent (sProperty ! ic) = 1" "P_periodic (sProperty ! ic) \<noteq> 1"
      and brow: "P_type (sProperty ! ib) = T_b_tumb mc" "P_frozen (sProperty ! ib) = 0"
                "P_independent (sProperty ! ib) \<noteq> 1" "P_iseg (sProperty ! ib) = 0"
      and erow: "P_frozen (sProperty ! iEs) = 0" "P_independent (sProperty ! iEs) \<noteq> 1"
      and uc: "\<forall>j<N_PARAMS. P_type (sProperty ! j) = T_c_tumb mc \<longrightarrow> j = ic"
      and ub: "\<forall>j<N_PARAMS. P_type (sProperty ! j) = T_b_tumb mc \<longrightarrow> j = ib"
      and ue: "\<forall>j<N_PARAMS. (P_type (sProperty ! j) = T_Es mc) = (j = iEs)"
      and stc: "sTypes (T_c_tumb mc) 0 = ic" and stb: "sTypes (T_b_tumb mc) 0 = ib"
      and limc: "sLimits 0 (T_c_tumb mc) \<noteq> sLimits 1 (T_c_tumb mc)"
      and limb: "sLimits 0 (T_b_tumb mc) \<noteq> sLimits 1 (T_b_tumb mc)"
      and lenx: "length x0 = N_PARAMS" and lenp: "length params0 = N_PARAMS"
      and axes: "0 < params ! ic" "params ! ic < params ! ib" "params ! ib < 1"
  shows "1 < Ii' \<and> Ii' < Is'
       \<and> (params ! iEs = 1 / Ii' \<longrightarrow> X ! iEs = 1 / 2)
       \<and> ((1 / 2 < X ! iEs) = (1 / Ii' < params ! iEs))
       \<and> ((X ! iEs < 1 / 2) = (params ! iEs < 1 / Ii'))
       \<and> (1 / Ii' < params ! iEs \<and> params ! iEs \<le> 1 \<longrightarrow> 1 / 2 < X ! iEs \<and> X ! iEs \<le> 1)
       \<and> (1 / Is' \<le> params ! iEs \<and> params ! iEs < 1 / Ii' \<longrightarrow> 0 \<le> X ! iEs \<and> X ! iEs < 1 / 2)
       \<and> (fst (x2params mc sLimits sProperty sTypes X params0 loc0) = 0 \<longrightarrow>
             snd (check_from mc sProperty X N_PARAMS 0 False) = (X ! iEs \<ge> 1 / 2)
           \<and> snd (x2params mc sLimits sProperty sTypes X params0 loc0) ! iEs = params ! iEs)"
proof -
  let ?c = "params ! ic" and ?b = "params ! ib" and ?Es = "params ! iEs"
  have icN: "ic < N_PARAMS" and ibN: "ib < N_PARAMS" using ord by simp_all
  have b0: "0 < ?b" using axes by simp
  have I: "1 < Ii'" "Ii' < Is'"
    unfolding Ii'_def Is'_def using inertia_order [OF axes] by simp_all
  have tE: "P_type (sProperty ! iEs) = T_Es mc" using ue ord(3) by simp
  have neEb: "T_Es mc \<noteq> T_b_tumb mc" using dist by simp
  have XE: "X ! iEs = enc_Es Ii' Is' ?Es"
    unfolding X_def Ii'_def Is'_def enc_Es_def
    using params2x_Es [OF ord(3) lenx erow tE neEb, of sLimits sTypes params LAM0 i_Es0]
    by (simp add: stc stb)
  note f = enc_Es_facts [OF I]
  have at: "?Es = 1 / Ii' \<longrightarrow> X ! iEs = 1 / 2" using f(1) XE by simp
  have up: "(1 / 2 < X ! iEs) = (1 / Ii' < ?Es)" using f(2) XE by simp
  have dn: "(X ! iEs < 1 / 2) = (?Es < 1 / Ii')" using f(3) XE by simp
  have lamr: "1 / Ii' < ?Es \<and> ?Es \<le> 1 \<longrightarrow> 1 / 2 < X ! iEs \<and> X ! iEs \<le> 1"
    using f(2) f(4) XE by simp
  have samr: "1 / Is' \<le> ?Es \<and> ?Es < 1 / Ii' \<longrightarrow> 0 \<le> X ! iEs \<and> X ! iEs < 1 / 2"
    using f(3) f(5) XE by simp
  have dec: "fst (x2params mc sLimits sProperty sTypes X params0 loc0) = 0 \<longrightarrow>
             snd (check_from mc sProperty X N_PARAMS 0 False) = (X ! iEs \<ge> 1 / 2)
           \<and> snd (x2params mc sLimits sProperty sTypes X params0 loc0) ! iEs = ?Es"
  proof
    assume acc: "fst (x2params mc sLimits sProperty sTypes X params0 loc0) = 0"
    have nrej: "\<not> fst (check_from mc sProperty X N_PARAMS 0 False)"
      using acc x2params_rc [of mc sLimits sProperty sTypes X params0 loc0]
      by (auto split: if_splits)
    have fl: "snd (check_from mc sProperty X N_PARAMS 0 False) = (X ! iEs \<ge> 1 / 2)"
      using check_from_flag [OF ue ord(3) _ _ nrej] by simp
    \<comment> \<open>the coordinates of \<open>c_tumb\<close> and \<open>b_tumb\<close>\<close>
    have Xc: "X ! ic = (ln ?c - sLimits 0 (T_c_tumb mc))
                       / (sLimits 1 (T_c_tumb mc) - sLimits 0 (T_c_tumb mc))"
      unfolding X_def
      using params2x_independent [OF icN lenx crow(2) crow(3), of mc sLimits sTypes params LAM0 i_Es0]
        crow(1) crow(4) by simp
    have xc: "X ! ic * (sLimits 1 (T_c_tumb mc) - sLimits 0 (T_c_tumb mc)) + sLimits 0 (T_c_tumb mc)
        = ln ?c"
      unfolding Xc using limc by simp
    have Xb: "X ! ib = (ln ?b / ln ?c - sLimits 0 (T_b_tumb mc))
                       / (sLimits 1 (T_b_tumb mc) - sLimits 0 (T_b_tumb mc))"
      unfolding X_def
      using params2x_b_tumb [OF ibN lenx brow(2) brow(3) brow(1), of sLimits sTypes params LAM0 i_Es0]
      by (simp add: stc stb)
    have lnc: "ln ?c \<noteq> 0" using axes by simp
    have "X ! ib * (sLimits 1 (T_b_tumb mc) - sLimits 0 (T_b_tumb mc)) + sLimits 0 (T_b_tumb mc)
        = ln ?b / ln ?c"
      unfolding Xb using limb by simp
    then have xb: "ln ?c * (X ! ib * (sLimits 1 (T_b_tumb mc) - sLimits 0 (T_b_tumb mc))
        + sLimits 0 (T_b_tumb mc)) = ln ?b"
      using lnc by simp
    have cper: "P_periodic (sProperty ! ic) \<noteq> PERIODIC mc" using crow(4) per1 by simp
    have st: "sTypes (T_c_tumb mc) (P_iseg (sProperty ! ib)) = ic" using brow(4) stc by simp
    note inert = x2params_inertia_at_Es [where mc = mc and sLimits = sLimits
        and sProperty = sProperty and sTypes = sTypes and LAM = "X ! iEs \<ge> 0.5" and x = X
        and ?params0.0 = params0 and ?loc0.0 = loc0 and ic = ic and ib = ib and iEs = iEs
        and c = ?c and b = ?b,
        OF ord crow(1) brow(1) uc ub dist cper crow(3) st lenp xc xb axes(1) b0]
    have val: "snd (x2params mc sLimits sProperty sTypes X params0 loc0) ! iEs =
           (if X ! iEs \<ge> 0.5 then 2 * (X ! iEs - 0.5) * (1 - 1 / Ii') + 1 / Ii'
            else 2 * X ! iEs * (1 / Ii' - 1 / Is') + 1 / Is')"
    proof -
      define loc where "loc = snd (fold (x2params_slot mc sLimits sProperty sTypes (X ! iEs \<ge> 0.5) X)
                              [0..<iEs] (params0, loc0))"
      have Il: "Ii loc = Ii'" and Sl: "Is loc = Is'"
        using inert unfolding loc_def Ii'_def Is'_def by blast+
      have "snd (x2params mc sLimits sProperty sTypes X params0 loc0) ! iEs =
           (if X ! iEs \<ge> 0.5 then 2 * (X ! iEs - 0.5) * (1 - 1 / Ii loc) + 1 / Ii loc
            else 2 * X ! iEs * (1 / Ii loc - 1 / Is loc) + 1 / Is loc)"
        using x2params_Es_value [OF ue ord(3) neEb lenp acc]
        by (simp only: Let_def loc_def [symmetric])
      then show ?thesis by (simp only: Il Sl)
    qed
    have "snd (x2params mc sLimits sProperty sTypes X params0 loc0) ! iEs = ?Es"
      unfolding val XE by (rule dec_Es_inverts [OF I])
    then show "snd (check_from mc sProperty X N_PARAMS 0 False) = (X ! iEs \<ge> 1 / 2)
           \<and> snd (x2params mc sLimits sProperty sTypes X params0 loc0) ! iEs = ?Es"
      using fl by simp
  qed
  show ?thesis using I at up dn lamr samr dec by blast
qed

lemma demo_uniq_c:
  "\<forall>j<N_PARAMS. P_type (demo_property ! j) = T_c_tumb demo_macros \<longrightarrow> j = 3"
  by (simp add: N_PARAMS_def demo_property_def demo_row_def demo_macros_def
      eval_nat_numeral All_less_Suc)

lemma demo_uniq_b:
  "\<forall>j<N_PARAMS. P_type (demo_property ! j) = T_b_tumb demo_macros \<longrightarrow> j = 4"
  by (simp add: N_PARAMS_def demo_property_def demo_row_def demo_macros_def
      eval_nat_numeral All_less_Suc)

lemma demo_inertia: "Ii_of (1 / 2) (1 / 4) = 17 / 5" "Is_of (1 / 2) (1 / 4) = 4"
  by (simp_all add: Ii_of_def Is_of_def)

theorem C8_energy_split_consistent_witness:
  "(3::nat) < 4 \<and> (4::nat) < 5 \<and> (5::nat) < N_PARAMS
   \<and> 0 < demo_params ! 3 \<and> demo_params ! 3 < demo_params ! 4 \<and> demo_params ! 4 < 1
   \<and> 1 / Ii_of (demo_params ! 4) (demo_params ! 3) < demo_params ! 5 \<and> demo_params ! 5 \<le> 1
   \<and> 1 / 2 < params2x demo_macros demo_limits demo_property demo_types zero7 demo_params False 0 ! 5
   \<and> params2x demo_macros demo_limits demo_property demo_types zero7 demo_params False 0 ! 5 \<le> 1"
proof -
  have ord: "(3::nat) < 4" "(4::nat) < 5" "(5::nat) < N_PARAMS" by (simp_all add: N_PARAMS_def)
  have dist: "distinct [T_c_tumb demo_macros, T_b_tumb demo_macros, T_Es demo_macros,
      T_psi_0 demo_macros]" by (simp add: demo_macros_def)
  have per1: "PERIODIC demo_macros = 1" by (simp add: demo_macros_def)
  have r3: "demo_property ! 3 = demo_row 4 1 2" and r4: "demo_property ! 4 = demo_row 5 0 2"
    and r5: "demo_property ! 5 = demo_row 6 0 2" by (simp_all add: demo_property_def)
  have crow: "P_type (demo_property ! 3) = T_c_tumb demo_macros" "P_frozen (demo_property ! 3) = 0"
      "P_independent (demo_property ! 3) = 1" "P_periodic (demo_property ! 3) \<noteq> 1"
    by (simp_all add: r3 demo_row_def demo_macros_def)
  have brow: "P_type (demo_property ! 4) = T_b_tumb demo_macros" "P_frozen (demo_property ! 4) = 0"
      "P_independent (demo_property ! 4) \<noteq> 1" "P_iseg (demo_property ! 4) = 0"
    by (simp_all add: r4 demo_row_def demo_macros_def)
  have erow: "P_frozen (demo_property ! 5) = 0" "P_independent (demo_property ! 5) \<noteq> 1"
    by (simp_all add: r5 demo_row_def)
  have stc: "demo_types (T_c_tumb demo_macros) 0 = 3" and stb: "demo_types (T_b_tumb demo_macros) 0 = 4"
    by (simp_all add: demo_types_def demo_macros_def)
  have limc: "demo_limits 0 (T_c_tumb demo_macros) \<noteq> demo_limits 1 (T_c_tumb demo_macros)"
    and limb: "demo_limits 0 (T_b_tumb demo_macros) \<noteq> demo_limits 1 (T_b_tumb demo_macros)"
    by (simp_all add: demo_limits_def demo_macros_def)
  have len: "length zero7 = N_PARAMS" by (simp add: zero7_def N_PARAMS_def)
  have p3: "demo_params ! 3 = 1 / 4" and p4: "demo_params ! 4 = 1 / 2" and p5: "demo_params ! 5 = 1 / 2"
    by (simp_all add: demo_params_def)
  have axes: "0 < demo_params ! 3" "demo_params ! 3 < demo_params ! 4" "demo_params ! 4 < 1"
    by (simp_all add: p3 p4)
  note c = C8_energy_split_consistent [where mc = demo_macros and sLimits = demo_limits
      and sProperty = demo_property and sTypes = demo_types and ?x0.0 = zero7
      and params = demo_params and ?params0.0 = zero7 and ?LAM0.0 = False and ?i_Es0.0 = 0
      and ic = 3 and ib = 4 and iEs = 5 and ?loc0.0 = demo_locals,
      OF ord dist per1 crow brow erow demo_uniq_c demo_uniq_b demo_uniq_Es stc stb limc limb
        len len axes]
  have e: "1 / Ii_of (demo_params ! 4) (demo_params ! 3) < demo_params ! 5" "demo_params ! 5 \<le> 1"
    by (simp_all add: p3 p4 p5 demo_inertia)
  have "1 / 2 < params2x demo_macros demo_limits demo_property demo_types zero7 demo_params False 0 ! 5
   \<and> params2x demo_macros demo_limits demo_property demo_types zero7 demo_params False 0 ! 5 \<le> 1"
    using c e by blast
  then show ?thesis using ord axes e by blast
qed

subsection \<open>The fit statistic of chi2one\<close>


text \<open>The loop of chi2one feeds the magnitudes \<open>Vmod_at\<close> to the accumulators.\<close>

lemma data_point_fold:
  fixes mc :: macros and k :: chi2_consts and Nplot :: int and delta_V :: "real list"
    and sData :: "obs_data list"
  defines "g \<equiv> (\<lambda>i st. if early st \<noteq> None then st
                          else use_magnitude mc Nplot delta_V (sData ! i) i (Vmod_at mc k sData i) st)"
  shows "snd (fold (data_point mc k Nplot delta_V sData) [0..<n] (cE0 k, st0)) = fold g [0..<n] st0
       \<and> (early (fold g [0..<n] st0) = None \<longrightarrow>
            fst (fold (data_point mc k Nplot delta_V sData) [0..<n] (cE0 k, st0))
              = euler_at mc k sData (n - 1))"
proof (induction n)
  case 0
  show ?case by simp
next
  case (Suc n)
  define s where "s = fold (data_point mc k Nplot delta_V sData) [0..<n] (cE0 k, st0)"
  define t where "t = fold g [0..<n] st0"
  have st: "snd s = t" and E: "early t = None \<longrightarrow> fst s = euler_at mc k sData (n - 1)"
    using Suc.IH unfolding s_def t_def by simp_all
  have s': "fold (data_point mc k Nplot delta_V sData) [0..<Suc n] (cE0 k, st0)
      = data_point mc k Nplot delta_V sData n s" by (simp add: s_def)
  have t': "fold g [0..<Suc n] st0 = g n t" by (simp add: t_def)
  show ?case
  proof (cases "early t = None")
    case False
    have "data_point mc k Nplot delta_V sData n s = s"
      using False st by (cases s) (simp add: data_point_def)
    moreover have "g n t = t" using False by (simp add: g_def)
    ultimately show ?thesis unfolding s' t' using st False by auto
  next
    case True
    have Es: "fst s = euler_at mc k sData (n - 1)" using E True by simp
    have En: "euler_step mc k sData n (fst s) = euler_at mc k sData n"
    proof (cases n)
      case 0
      then show ?thesis using Es by (simp add: euler_step_def)
    next
      case (Suc j)
      then show ?thesis using Es by (simp add: euler_step_def)
    qed
    have dp: "data_point mc k Nplot delta_V sData n s
        = (euler_at mc k sData n,
           use_magnitude mc Nplot delta_V (sData ! n) n (Vmod_at mc k sData n) t)"
      using True st En by (cases s) (simp add: data_point_def Let_def Vmod_at_def)
    have gn: "g n t = use_magnitude mc Nplot delta_V (sData ! n) n (Vmod_at mc k sData n) t"
      using True by (simp add: g_def)
    show ?thesis unfolding s' t' dp gn by simp
  qed
qed

lemma chi2one_of_magnitudes:
  "chi2one mc params sData N_data N_filters delta_V Nplot sTypes d_Vmod0 =
     chi2_of_magnitudes mc sData N_data N_filters delta_V Nplot d_Vmod0
       (Vmod_at mc (chi2_setup mc params sTypes) sData)"
  using data_point_fold [of mc "chi2_setup mc params sTypes" Nplot delta_V sData "nat N_data"
      "chi2_init N_filters d_Vmod0"]
  by (simp add: chi2one_def chi2_of_magnitudes_def Let_def)

lemma S_Suc:
  "S2 sData mags (Suc n) m = S2 sData mags n m
     + (if obsFilter (sData ! n) = int m
        then obsw (sData ! n) * ((obsV (sData ! n) - mags n) * (obsV (sData ! n) - mags n)) else 0)"
  "S1 sData mags (Suc n) m = S1 sData mags n m
     + (if obsFilter (sData ! n) = int m then obsw (sData ! n) * (obsV (sData ! n) - mags n) else 0)"
  "S0 sData (Suc n) m = S0 sData n m
     + (if obsFilter (sData ! n) = int m then obsw (sData ! n) else 0)"
  by (simp_all add: S2_def S1_def S0_def)

lemma fit_inv_init: "fit_inv sData mags (nat N_filters) d0 0 (chi2_init N_filters d0)"
  by (simp add: fit_inv_def chi2_init_def S2_def S1_def S0_def)

lemma fit_inv_step:
  assumes inv: "fit_inv sData mags F d0 n st" and fit: "Nplot \<le> 0"
  shows "fit_inv sData mags F d0 (Suc n)
           (use_magnitude mc Nplot delta_V (sData ! n) n (mags n) st)"
proof (cases "0 \<le> obsFilter (sData ! n) \<and> nat (obsFilter (sData ! n)) < F")
  case True
  define j where "j = nat (obsFilter (sData ! n))"
  have jF: "j < F" and fj: "obsFilter (sData ! n) = int j" using True by (simp_all add: j_def)
  have len: "length (sum_y2 st) = F" "length (sum_y st) = F" "length (sum_w st) = F"
    using inv by (simp_all add: fit_inv_def)
  have um: "use_magnitude mc Nplot delta_V (sData ! n) n (mags n) st =
      st\<lparr>sum_y2 := (sum_y2 st)[j := sum_y2 st ! j
               + (obsV (sData ! n) - mags n) * (obsV (sData ! n) - mags n) * obsw (sData ! n)],
         sum_y := (sum_y st)[j := sum_y st ! j + (obsV (sData ! n) - mags n) * obsw (sData ! n)],
         sum_w := (sum_w st)[j := sum_w st ! j + obsw (sData ! n)]\<rparr>"
    using fit True len by (simp add: use_magnitude_def Let_def j_def)
  show ?thesis
    unfolding um fit_inv_def
  proof (intro conjI allI impI)
    fix m assume m: "m < F"
    have old: "sum_y2 st ! m = S2 sData mags n m" "sum_y st ! m = S1 sData mags n m"
      "sum_w st ! m = S0 sData n m" using inv m by (simp_all add: fit_inv_def)
    show "sum_y2 (st\<lparr>sum_y2 := (sum_y2 st)[j := sum_y2 st ! j
               + (obsV (sData ! n) - mags n) * (obsV (sData ! n) - mags n) * obsw (sData ! n)],
         sum_y := (sum_y st)[j := sum_y st ! j + (obsV (sData ! n) - mags n) * obsw (sData ! n)],
         sum_w := (sum_w st)[j := sum_w st ! j + obsw (sData ! n)]\<rparr>) ! m = S2 sData mags (Suc n) m"
      using old len jF m fj by (cases "m = j") (simp_all add: S_Suc algebra_simps)
    show "sum_y (st\<lparr>sum_y2 := (sum_y2 st)[j := sum_y2 st ! j
               + (obsV (sData ! n) - mags n) * (obsV (sData ! n) - mags n) * obsw (sData ! n)],
         sum_y := (sum_y st)[j := sum_y st ! j + (obsV (sData ! n) - mags n) * obsw (sData ! n)],
         sum_w := (sum_w st)[j := sum_w st ! j + obsw (sData ! n)]\<rparr>) ! m = S1 sData mags (Suc n) m"
      using old len jF m fj by (cases "m = j") (simp_all add: S_Suc algebra_simps)
    show "sum_w (st\<lparr>sum_y2 := (sum_y2 st)[j := sum_y2 st ! j
               + (obsV (sData ! n) - mags n) * (obsV (sData ! n) - mags n) * obsw (sData ! n)],
         sum_y := (sum_y st)[j := sum_y st ! j + (obsV (sData ! n) - mags n) * obsw (sData ! n)],
         sum_w := (sum_w st)[j := sum_w st ! j + obsw (sData ! n)]\<rparr>) ! m = S0 sData (Suc n) m"
      using old len jF m fj by (cases "m = j") (simp_all add: S_Suc algebra_simps)
  qed (use inv in \<open>simp_all add: fit_inv_def\<close>)
next
  case False
  have um: "use_magnitude mc Nplot delta_V (sData ! n) n (mags n) st = st"
    using fit False inv by (auto simp: use_magnitude_def Let_def fit_inv_def)
  have no: "\<And>m. m < F \<Longrightarrow> obsFilter (sData ! n) \<noteq> int m" using False by auto
  show ?thesis unfolding um using inv no by (simp add: fit_inv_def S_Suc)
qed

lemma fit_inv_fold:
  assumes fit: "Nplot \<le> 0"
  shows "fit_inv sData mags (nat N_filters) d0 n
           (fold (\<lambda>i st. if early st \<noteq> None then st
                          else use_magnitude mc Nplot delta_V (sData ! i) i (mags i) st)
              [0..<n] (chi2_init N_filters d0))"
proof -
  define g where "g = (\<lambda>i st. if early st \<noteq> None then st
                          else use_magnitude mc Nplot delta_V (sData ! i) i (mags i) st)"
  have "fit_inv sData mags (nat N_filters) d0 n (fold g [0..<n] (chi2_init N_filters d0))"
  proof (induction n)
    case 0
    show ?case using fit_inv_init by simp
  next
    case (Suc n)
    define st where "st = fold g [0..<n] (chi2_init N_filters d0)"
    have inv: "fit_inv sData mags (nat N_filters) d0 n st" using Suc.IH by (simp add: st_def)
    then have e: "early st = None" by (simp add: fit_inv_def)
    have gn: "g n st = use_magnitude mc Nplot delta_V (sData ! n) n (mags n) st"
      using e by (simp add: g_def)
    have "fit_inv sData mags (nat N_filters) d0 (Suc n) (g n st)"
      unfolding gn by (rule fit_inv_step [OF inv fit])
    moreover have "fold g [0..<Suc n] (chi2_init N_filters d0) = g n st" by (simp add: st_def)
    ultimately show ?case by simp
  qed
  then show ?thesis unfolding g_def .
qed

text \<open>The loop over the filters.\<close>

lemma filter_fold:
  "fold (filter_step st) [0..<F] (0, dV) = (c, dV') \<Longrightarrow>
     c = (\<Sum>m<F. sum_y2 st ! m - sum_y st ! m * sum_y st ! m / sum_w st ! m)
   \<and> length dV' = length dV
   \<and> (\<forall>m<F. m < length dV \<longrightarrow> dV' ! m = sum_y st ! m / sum_w st ! m)
   \<and> (\<forall>m\<ge>F. dV' ! m = dV ! m)"
proof (induction F arbitrary: c dV')
  case 0
  then show ?case by simp
next
  case (Suc F)
  obtain c0 dV0 where f0: "fold (filter_step st) [0..<F] (0, dV) = (c0, dV0)"
    by (cases "fold (filter_step st) [0..<F] (0, dV)")
  note IH = Suc.IH [OF f0]
  have step: "(c, dV') = filter_step st F (c0, dV0)" using Suc.prems f0 by simp
  then have c: "c = c0 + (sum_y2 st ! F - sum_y st ! F * sum_y st ! F / sum_w st ! F)"
    and d: "dV' = dV0[F := sum_y st ! F / sum_w st ! F]"
    by (simp_all add: filter_step_def Let_def)
  show ?case
  proof (intro conjI allI impI)
    show "c = (\<Sum>m<Suc F. sum_y2 st ! m - sum_y st ! m * sum_y st ! m / sum_w st ! m)"
      using c IH by simp
    show "length dV' = length dV" using d IH by simp
  next
    fix m assume "m < Suc F" "m < length dV"
    then show "dV' ! m = sum_y st ! m / sum_w st ! m"
      using d IH by (cases "m = F") (simp_all add: less_Suc_eq)
  next
    fix m assume "Suc F \<le> m"
    then show "dV' ! m = dV ! m" using d IH by simp
  qed
qed

text \<open>
  Claim C1.  In fit mode (\<open>Nplot = 0\<close>), for \<open>N_data\<close> observations whose filter codes are
  in \<open>0, ..., N_filters - 1\<close>, every filter with a non-zero sum of weights, and
  \<open>N_data - 7 - N_filters > 0\<close>: \<^verbatim>\<open>chi2one\<close> returns
  \<open>(\<Sum> m. S2 m - S1 m * S1 m / S0 m) / (N_data - 7 - N_filters)\<close> and stores
  \<open>delta_V[m] = S1 m / S0 m\<close> for every filter \<open>m\<close>, where \<open>S2\<close>, \<open>S1\<close>, \<open>S0\<close> are the
  sums of \<open>w y y\<close>, \<open>w y\<close>, \<open>w\<close> over the observations of the filter and \<open>y\<close> is the
  observed magnitude minus the model magnitude \<open>Vmod_at\<close> of the observation; the rest of
  \<open>delta_V\<close> and the buffer \<open>d_Vmod\<close> are left as they were.
\<close>

theorem C1_fit_statistic:
  fixes mc :: macros and params delta_V d_Vmod0 :: "real list" and sData :: "obs_data list"
    and N_data N_filters Nplot :: int and sTypes :: stypes
  defines "mags \<equiv> Vmod_at mc (chi2_setup mc params sTypes) sData"
  defines "n \<equiv> nat N_data"
  assumes fit: "Nplot = 0"
      and dof: "N_data - 7 - N_filters > 0"
      and nf: "0 \<le> N_filters"
      and lend: "nat N_data \<le> length sData"
      and lenv: "nat N_filters \<le> length delta_V"
      and filt: "\<forall>i<nat N_data. 0 \<le> obsFilter (sData ! i) \<and> obsFilter (sData ! i) < N_filters"
      and wsum: "\<forall>m<nat N_filters. S0 sData (nat N_data) m \<noteq> 0"
  shows "\<exists>dV'. chi2one mc params sData N_data N_filters delta_V Nplot sTypes d_Vmod0
            = ((\<Sum>m<nat N_filters. S2 sData mags n m - S1 sData mags n m * S1 sData mags n m / S0 sData n m)
                 / real_of_int (N_data - 7 - N_filters), dV', d_Vmod0)
          \<and> length dV' = length delta_V
          \<and> (\<forall>m<nat N_filters. dV' ! m = S1 sData mags n m / S0 sData n m)
          \<and> (\<forall>m\<ge>nat N_filters. dV' ! m = delta_V ! m)"
proof -
  define F where "F = nat N_filters"
  define st where "st = fold (\<lambda>i st. if early st \<noteq> None then st
                          else use_magnitude mc Nplot delta_V (sData ! i) i (mags i) st)
              [0..<n] (chi2_init N_filters d_Vmod0)"
  have inv: "fit_inv sData mags F d_Vmod0 n st"
    unfolding st_def F_def by (rule fit_inv_fold) (simp add: fit)
  have e: "early st = None" and d: "d_Vmod st = d_Vmod0"
    and sums: "\<forall>m<F. sum_y2 st ! m = S2 sData mags n m \<and> sum_y st ! m = S1 sData mags n m
              \<and> sum_w st ! m = S0 sData n m"
    using inv by (simp_all add: fit_inv_def)
  obtain c dV' where ff: "fold (filter_step st) [0..<F] (0, delta_V) = (c, dV')"
    by (cases "fold (filter_step st) [0..<F] (0, delta_V)")
  note fl = filter_fold [OF ff]
  have c: "c = (\<Sum>m<F. S2 sData mags n m - S1 sData mags n m * S1 sData mags n m / S0 sData n m)"
    using fl sums by simp
  have dv: "\<forall>m<F. dV' ! m = S1 sData mags n m / S0 sData n m"
    using fl sums lenv by (simp add: F_def)
  have "chi2one mc params sData N_data N_filters delta_V Nplot sTypes d_Vmod0
      = chi2_finish mc N_data N_filters Nplot delta_V st"
    unfolding chi2one_of_magnitudes chi2_of_magnitudes_def st_def mags_def n_def ..
  also have "\<dots> = (c / real_of_int (N_data - int N_PARAMS - N_filters), dV', d_Vmod0)"
    using e d fit ff by (simp add: chi2_finish_def F_def)
  finally have "chi2one mc params sData N_data N_filters delta_V Nplot sTypes d_Vmod0
      = (c / real_of_int (N_data - 7 - N_filters), dV', d_Vmod0)"
    by (simp add: N_PARAMS_def)
  then show ?thesis using c dv fl unfolding F_def by blast
qed

lemma demo_data_nth: "i < 10 \<Longrightarrow> demo_data ! i = demo_obs i"
  by (simp add: demo_data_def)

lemma demo_S0: "S0 demo_data 10 0 = 10"
proof -
  have "S0 demo_data 10 0 = (\<Sum>i<(10::nat). (1::real))"
    unfolding S0_def by (rule sum.cong) (simp_all add: demo_data_nth demo_obs_def)
  then show ?thesis by simp
qed

theorem C1_fit_statistic_witness:
  "(10::int) - 7 - 1 > 0 \<and> nat 10 \<le> length demo_data \<and> S0 demo_data 10 0 = 10
   \<and> list_all (\<lambda>d. 0 \<le> obsFilter d \<and> obsFilter d < 1) demo_data
   \<and> (\<exists>dV'. chi2one demo_macros demo_params demo_data 10 1 [0] 0 demo_types []
          = ((\<Sum>m<nat 1. S2 demo_data (Vmod_at demo_macros (chi2_setup demo_macros demo_params demo_types) demo_data) (nat 10) m
                 - S1 demo_data (Vmod_at demo_macros (chi2_setup demo_macros demo_params demo_types) demo_data) (nat 10) m
                   * S1 demo_data (Vmod_at demo_macros (chi2_setup demo_macros demo_params demo_types) demo_data) (nat 10) m
                   / S0 demo_data (nat 10) m)
               / real_of_int (10 - 7 - 1), dV', [])
        \<and> dV' ! 0 = S1 demo_data (Vmod_at demo_macros (chi2_setup demo_macros demo_params demo_types) demo_data) (nat 10) 0
                      / S0 demo_data (nat 10) 0)"
proof -
  have dof: "(10::int) - 7 - 1 > 0" by simp
  have nf: "(0::int) \<le> 1" by simp
  have lend: "nat 10 \<le> length demo_data" by (simp add: demo_data_def)
  have lenv: "nat 1 \<le> length [0::real]" by simp
  have all: "list_all (\<lambda>d. 0 \<le> obsFilter d \<and> obsFilter d < 1) demo_data"
    by (simp add: demo_data_def list_all_iff demo_obs_def)
  have filt: "\<forall>i<nat 10. 0 \<le> obsFilter (demo_data ! i) \<and> obsFilter (demo_data ! i) < 1"
    by (simp add: demo_data_nth demo_obs_def)
  have wsum: "\<forall>m<nat 1. S0 demo_data (nat 10) m \<noteq> 0"
    using demo_S0 by simp
  note c = C1_fit_statistic [where mc = demo_macros and params = demo_params
      and sData = demo_data and N_data = 10 and N_filters = 1 and delta_V = "[0]"
      and Nplot = 0 and sTypes = demo_types and ?d_Vmod0.0 = "[]",
      OF refl dof nf lend lenv filt wsum]
  have "\<exists>dV'. chi2one demo_macros demo_params demo_data 10 1 [0] 0 demo_types []
          = ((\<Sum>m<nat 1. S2 demo_data (Vmod_at demo_macros (chi2_setup demo_macros demo_params demo_types) demo_data) (nat 10) m
                 - S1 demo_data (Vmod_at demo_macros (chi2_setup demo_macros demo_params demo_types) demo_data) (nat 10) m
                   * S1 demo_data (Vmod_at demo_macros (chi2_setup demo_macros demo_params demo_types) demo_data) (nat 10) m
                   / S0 demo_data (nat 10) m)
               / real_of_int (10 - 7 - 1), dV', [])
        \<and> dV' ! 0 = S1 demo_data (Vmod_at demo_macros (chi2_setup demo_macros demo_params demo_types) demo_data) (nat 10) 0
                      / S0 demo_data (nat 10) 0"
  proof -
    from c obtain dV' where
      d: "chi2one demo_macros demo_params demo_data 10 1 [0] 0 demo_types []
          = ((\<Sum>m<nat 1. S2 demo_data (Vmod_at demo_macros (chi2_setup demo_macros demo_params demo_types) demo_data) (nat 10) m
                 - S1 demo_data (Vmod_at demo_macros (chi2_setup demo_macros demo_params demo_types) demo_data) (nat 10) m
                   * S1 demo_data (Vmod_at demo_macros (chi2_setup demo_macros demo_params demo_types) demo_data) (nat 10) m
                   / S0 demo_data (nat 10) m)
               / real_of_int (10 - 7 - 1), dV', [])"
      and v: "\<forall>m<nat 1. dV' ! m = S1 demo_data (Vmod_at demo_macros (chi2_setup demo_macros demo_params demo_types) demo_data) (nat 10) m
                      / S0 demo_data (nat 10) m"
      by blast
    have "(0::nat) < nat 1" by simp
    then have "dV' ! 0 = S1 demo_data (Vmod_at demo_macros (chi2_setup demo_macros demo_params demo_types) demo_data) (nat 10) 0
                      / S0 demo_data (nat 10) 0" using v by blast
    then show ?thesis using d by blast
  qed
  then show ?thesis using dof lend demo_S0 all by blast
qed

subsection \<open>The score of the minima mode of chi2one\<close>


lemma filter_update_drop:
  "k < length xs \<Longrightarrow> P (xs ! k) \<Longrightarrow> \<not> P v
     \<Longrightarrow> Suc (length (filter P (xs[k := v]))) = length (filter P xs)"
proof (induction xs arbitrary: k)
  case Nil
  then show ?case by simp
next
  case (Cons x xs)
  then show ?case by (cases k) simp_all
qed

lemma deepest_ok_step:
  assumes "deepest_ok vmin n s" and "n < length vmin"
  shows "deepest_ok vmin (Suc n) (deepest_step vmin n s)"
proof (cases s)
  case (Pair Vmax kmax)
  show ?thesis
  proof (cases "vmin ! n > Vmax")
    case True
    have "selectable (vmin ! n)"
      using assms(1) True unfolding Pair deepest_ok_def selectable_def by auto
    then show ?thesis using True by (simp add: Pair deepest_step_def deepest_ok_def)
  next
    case False
    have "deepest_ok vmin (Suc n) (Vmax, kmax)"
      using assms False unfolding Pair deepest_ok_def selectable_def
      by (auto simp: take_Suc_conv_app_nth)
    then show ?thesis using False by (simp add: Pair deepest_step_def)
  qed
qed

lemma deepest_ok_fold:
  "n \<le> length vmin \<Longrightarrow>
     deepest_ok vmin n (fold (deepest_step vmin) [0..<n] (- (10 ^ 30), - 1))"
proof (induction n)
  case 0
  then show ?case by (simp add: deepest_ok_def)
next
  case (Suc n)
  then show ?case by (simp add: deepest_ok_step)
qed

lemma deepest_cases:
  obtains (none) "deepest vmin = (- (10 ^ 30), - 1)" "filter selectable vmin = []"
  | (found) k where "deepest vmin = (vmin ! k, int k)" "k < length vmin" "selectable (vmin ! k)"
proof -
  have ok: "deepest_ok vmin (length vmin) (deepest vmin)"
    unfolding deepest_def by (rule deepest_ok_fold) simp
  obtain Vmax kmax where d: "deepest vmin = (Vmax, kmax)" by (cases "deepest vmin")
  from ok d consider
      "kmax = - 1" "Vmax = - (10 ^ 30)" "list_all (\<lambda>v. \<not> selectable v) vmin"
    | "0 \<le> kmax" "nat kmax < length vmin" "Vmax = vmin ! nat kmax" "selectable Vmax"
    by (auto simp: deepest_ok_def)
  then show thesis
  proof cases
    case 1
    have "filter selectable vmin = []" using 1(3) by (simp add: filter_empty_conv list_all_iff)
    then show ?thesis using none d 1 by simp
  next
    case 2
    have "deepest vmin = (vmin ! nat kmax, int (nat kmax))" using d 2 by simp
    then show ?thesis using found 2 by blast
  qed
qed

lemma collect_best_Some:
  "n \<le> length (filter selectable vmin) \<Longrightarrow>
     \<exists>B. collect_best n vmin Vbest = Some B \<and> length B = length Vbest + n"
proof (induction n arbitrary: vmin Vbest)
  case 0
  then show ?case by simp
next
  case (Suc n)
  show ?case
  proof (cases vmin rule: deepest_cases)
    case none
    then show ?thesis using Suc.prems by simp
  next
    case (found k)
    have "\<not> selectable (- 2 * 10 ^ 30)" by (simp add: selectable_def)
    then have "Suc (length (filter selectable (vmin[k := - 2 * 10 ^ 30])))
                 = length (filter selectable vmin)"
      using found by (intro filter_update_drop) simp_all
    then have "n \<le> length (filter selectable (vmin[k := - 2 * 10 ^ 30]))"
      using Suc.prems by simp
    from Suc.IH [OF this, of "Vbest @ [vmin ! k]"] show ?thesis
      using found by simp
  qed
qed

lemma collect_best_None:
  "length (filter selectable vmin) < n \<Longrightarrow> collect_best n vmin Vbest = None"
proof (induction n arbitrary: vmin Vbest)
  case 0
  then show ?case by simp
next
  case (Suc n)
  show ?case
  proof (cases vmin rule: deepest_cases)
    case none
    then show ?thesis by simp
  next
    case (found k)
    have "\<not> selectable (- 2 * 10 ^ 30)" by (simp add: selectable_def)
    then have "Suc (length (filter selectable (vmin[k := - 2 * 10 ^ 30])))
                 = length (filter selectable vmin)"
      using found by (intro filter_update_drop) simp_all
    then have "length (filter selectable (vmin[k := - 2 * 10 ^ 30])) < n"
      using Suc.prems by simp
    from Suc.IH [OF this, of "Vbest @ [vmin ! k]"] show ?thesis
      using found by simp
  qed
qed

lemma score_chain_bounds:
  "0 \<le> score_chain vs ts \<and> score_chain vs ts \<le> int (length vs)
     \<and> score_chain vs ts \<le> int (length ts)"
  by (induction vs ts rule: score_chain.induct) auto

lemma minima_score_None:
  assumes "length (filter selectable vmin) < min 7 (length vmin)"
  shows "minima_score vmin = - 1"
proof -
  have "vmin \<noteq> []" using assms by auto
  then show ?thesis
    using collect_best_None [OF assms, of "[]"] by (simp only: minima_score_def) simp
qed

lemma minima_score_range:
  assumes "\<not> length (filter selectable vmin) < min 7 (length vmin)"
  shows "\<exists>s. minima_score vmin = real_of_int s \<and> 0 \<le> s \<and> s \<le> 7 \<and> s \<le> int (length vmin)"
proof -
  define m where "m = min 7 (length vmin)"
  have "m \<le> length (filter selectable vmin)" using assms unfolding m_def by linarith
  from collect_best_Some [OF this, of "[]"] obtain B where
    B: "collect_best m vmin [] = Some B" and l: "length B = m"
    by auto
  define s where "s = (if vmin = [] then 0 else score_chain B observed_depths)"
  have m: "minima_score vmin = real_of_int s"
    unfolding minima_score_def m_def [symmetric] s_def using B by simp
  define c where "c = score_chain B observed_depths"
  have "length observed_depths = 7" by (simp add: observed_depths_def)
  then have "0 \<le> c" "c \<le> int m" "c \<le> 7"
    using score_chain_bounds [of B observed_depths] l by (simp_all add: c_def)
  moreover have "int m \<le> int (length vmin)" by (simp add: m_def)
  ultimately have "0 \<le> c \<and> c \<le> 7 \<and> c \<le> int (length vmin)" by linarith
  then have "0 \<le> s \<and> s \<le> 7 \<and> s \<le> int (length vmin)"
    by (simp add: s_def c_def [symmetric])
  then show ?thesis using m by blast
qed

lemma tracked_minima_small: "n \<le> 2 \<Longrightarrow> tracked_minima sData mags dV0 n = []"
  by (simp add: tracked_minima_def)

lemma tracked_minima_Suc:
  "2 \<le> n \<Longrightarrow> tracked_minima sData mags dV0 (Suc n) =
     tracked_minima sData mags dV0 n
       @ (if minimum_at sData mags n then [mags (n - 1) + dV0] else [])"
  by (simp add: tracked_minima_def)

lemma tracked_minima_mono:
  "length (tracked_minima sData mags dV0 n) \<le> length (tracked_minima sData mags dV0 (Suc n))"
proof (cases "2 \<le> n")
  case True
  then show ?thesis by (simp add: tracked_minima_Suc)
next
  case False
  then show ?thesis by (simp add: tracked_minima_small)
qed

lemma track_inv_init:
  "0 \<le> MAX_MINIMA mc \<Longrightarrow> track_inv mc sData mags dV0 0 (chi2_init N_filters d_Vmod0)"
  by (simp add: track_inv_def tracked_minima_small chi2_init_def)

lemma track_inv_step:
  assumes inv: "track_inv mc sData mags dV0 n st"
  shows "track_inv mc sData mags dV0 (Suc n)
           (if early st \<noteq> None then st else track_minimum mc dV0 (sData ! n) n (mags n) st)"
proof (cases "int (length (tracked_minima sData mags dV0 n)) \<le> MAX_MINIMA mc")
  case False
  then have e: "early st = Some (- 1)" using inv by (simp add: track_inv_def)
  have "\<not> int (length (tracked_minima sData mags dV0 (Suc n))) \<le> MAX_MINIMA mc"
    using False tracked_minima_mono [of sData mags dV0 n] by linarith
  then show ?thesis using e by (simp add: track_inv_def)
next
  case True
  then have e: "early st = None" and v: "Vmin st = tracked_minima sData mags dV0 n"
    and one: "n = 1 \<longrightarrow> fst (V_old st) = mags 0 \<and> fst (t_old st) = obsMJD (sData ! 0)"
    and two: "2 \<le> n \<longrightarrow> V_old st = (mags (n - 2), mags (n - 1))
                      \<and> t_old st = (obsMJD (sData ! (n - 2)), obsMJD (sData ! (n - 1)))"
    using inv by (simp_all add: track_inv_def)
  consider "n = 0" | "n = 1" | "2 \<le> n" by linarith
  then show ?thesis
  proof cases
    case 1
    then show ?thesis using e True v
      by (simp add: track_inv_def tracked_minima_small track_minimum_def)
  next
    case 2
    have "Suc n = 2" using 2 by simp
    then show ?thesis using e True 2 one v
      by (simp add: track_inv_def tracked_minima_small track_minimum_def)
  next
    case 3
    have V: "V_old st = (mags (n - 2), mags (n - 1))"
      and t: "t_old st = (obsMJD (sData ! (n - 2)), obsMJD (sData ! (n - 1)))"
      using two 3 by simp_all
    have n2: "\<not> n < 2" using 3 by simp
    have S: "Suc n - 2 = n - 1" using 3 by simp
    show ?thesis
    proof (cases "minimum_at sData mags n")
      case m: True
      have c: "snd (V_old st) > fst (V_old st) \<and> snd (V_old st) \<ge> mags n
               \<and> covered (58051.044624 + snd (t_old st))"
        using m by (simp add: minimum_at_def V t)
      have l: "tracked_minima sData mags dV0 (Suc n) = Vmin st @ [mags (n - 1) + dV0]"
        using m 3 by (simp add: tracked_minima_Suc v)
      show ?thesis
      proof (cases "int (length (Vmin st)) + 1 > MAX_MINIMA mc")
        case over: True
        have "track_minimum mc dV0 (sData ! n) n (mags n) st = st\<lparr>early := Some (- 1)\<rparr>"
          using n2 c over by (simp add: track_minimum_def)
        then show ?thesis using e over l 3 by (simp add: track_inv_def)
      next
        case under: False
        have "track_minimum mc dV0 (sData ! n) n (mags n) st =
                st\<lparr>Vmin := Vmin st @ [snd (V_old st) + dV0],
                   t_old := (snd (t_old st), obsMJD (sData ! n)),
                   V_old := (snd (V_old st), mags n)\<rparr>"
          using n2 c under by (simp add: track_minimum_def Let_def)
        then show ?thesis using e under l 3 V t S by (simp add: track_inv_def)
      qed
    next
      case m: False
      have c: "\<not> (snd (V_old st) > fst (V_old st) \<and> snd (V_old st) \<ge> mags n
               \<and> covered (58051.044624 + snd (t_old st)))"
        using m by (simp add: minimum_at_def V t)
      have l: "tracked_minima sData mags dV0 (Suc n) = Vmin st"
        using m 3 by (simp add: tracked_minima_Suc v)
      have "track_minimum mc dV0 (sData ! n) n (mags n) st =
                st\<lparr>t_old := (snd (t_old st), obsMJD (sData ! n)),
                   V_old := (snd (V_old st), mags n)\<rparr>"
        using n2 c by (auto simp: track_minimum_def Let_def)
      then show ?thesis using e True l 3 V t S v by (simp add: track_inv_def)
    qed
  qed
qed

lemma track_inv_fold:
  assumes mt: "MINIMA_TEST mc" and plot: "Nplot > 0" and cap: "0 \<le> MAX_MINIMA mc"
  shows "track_inv mc sData mags (delta_V ! 0) n
           (fold (\<lambda>i st. if early st \<noteq> None then st
                          else use_magnitude mc Nplot delta_V (sData ! i) i (mags i) st)
              [0..<n] (chi2_init N_filters d_Vmod0))"
proof -
  define g where "g = (\<lambda>i st. if early st \<noteq> None then st
                          else use_magnitude mc Nplot delta_V (sData ! i) i (mags i) st)"
  have g: "g i st = (if early st \<noteq> None then st
                     else track_minimum mc (delta_V ! 0) (sData ! i) i (mags i) st)" for i st
    using mt plot by (simp add: g_def use_magnitude_def)
  have "track_inv mc sData mags (delta_V ! 0) n (fold g [0..<n] (chi2_init N_filters d_Vmod0))"
  proof (induction n)
    case 0
    then show ?case using cap by (simp add: track_inv_init)
  next
    case (Suc n)
    define st where "st = fold g [0..<n] (chi2_init N_filters d_Vmod0)"
    have inv: "track_inv mc sData mags (delta_V ! 0) n st" using Suc.IH by (simp add: st_def)
    have "track_inv mc sData mags (delta_V ! 0) (Suc n) (g n st)"
      unfolding g by (rule track_inv_step [OF inv])
    moreover have "fold g [0..<Suc n] (chi2_init N_filters d_Vmod0) = g n st"
      by (simp add: st_def)
    ultimately show ?case by simp
  qed
  then show ?thesis unfolding g_def .
qed

text \<open>
  The result of \<^verbatim>\<open>chi2one\<close> in the build with \<^verbatim>\<open>MINIMA_TEST\<close> and with \<open>Nplot > 0\<close>.
  Let \<open>ms\<close> be the values \<open>V_old[1] + delta_V[0]\<close> of the minima that the loop meets.
  With more than \<open>MAX_MINIMA\<close> of them the result is \<open>-1\<close>; otherwise the scan for the
  deepest minimum selects \<open>min 7 (length ms)\<close> values above its start value \<open>-1e30\<close> and
  the result is the score, or there are not that many and the result is \<open>-1\<close> (line 781).
\<close>

lemma minima_result:
  fixes mc :: macros and params delta_V d_Vmod0 :: "real list" and sData :: "obs_data list"
    and N_data N_filters Nplot :: int and sTypes :: stypes
  defines "mags \<equiv> Vmod_at mc (chi2_setup mc params sTypes) sData"
  defines "ms \<equiv> tracked_minima sData mags (delta_V ! 0) (nat N_data)"
  defines "r \<equiv> fst (chi2one mc params sData N_data N_filters delta_V Nplot sTypes d_Vmod0)"
  assumes mt: "MINIMA_TEST mc" and plot: "Nplot > 0" and cap: "0 \<le> MAX_MINIMA mc"
  shows "(int (length ms) > MAX_MINIMA mc \<longrightarrow> r = - 1)
       \<and> (int (length ms) \<le> MAX_MINIMA mc
            \<and> length (filter selectable ms) < min 7 (length ms) \<longrightarrow> r = - 1)
       \<and> (int (length ms) \<le> MAX_MINIMA mc
            \<and> min 7 (length ms) \<le> length (filter selectable ms) \<longrightarrow>
              (\<exists>s. r = real_of_int s \<and> 0 \<le> s \<and> s \<le> 7 \<and> s \<le> int (length ms)))"
proof -
  define st where "st = fold (\<lambda>i st. if early st \<noteq> None then st
                          else use_magnitude mc Nplot delta_V (sData ! i) i (mags i) st)
              [0..<nat N_data] (chi2_init N_filters d_Vmod0)"
  have inv: "track_inv mc sData mags (delta_V ! 0) (nat N_data) st"
    unfolding st_def by (rule track_inv_fold [OF mt plot cap])
  have "chi2one mc params sData N_data N_filters delta_V Nplot sTypes d_Vmod0
      = chi2_finish mc N_data N_filters Nplot delta_V st"
    unfolding chi2one_of_magnitudes chi2_of_magnitudes_def st_def mags_def ..
  then have r: "r = fst (chi2_finish mc N_data N_filters Nplot delta_V st)"
    by (simp add: r_def)
  have over: "r = - 1" if "int (length ms) > MAX_MINIMA mc"
  proof -
    have "early st = Some (- 1)" using inv that by (simp add: track_inv_def ms_def)
    then show ?thesis by (simp add: r chi2_finish_def)
  qed
  have under: "r = minima_score ms" if "int (length ms) \<le> MAX_MINIMA mc"
  proof -
    have "early st = None" "Vmin st = ms" using inv that by (simp_all add: track_inv_def ms_def)
    then show ?thesis using mt plot by (simp add: r chi2_finish_def)
  qed
  have none: "r = - 1"
    if "int (length ms) \<le> MAX_MINIMA mc" "length (filter selectable ms) < min 7 (length ms)"
    using under [OF that(1)] minima_score_None [OF that(2)] by simp
  have some: "\<exists>s. r = real_of_int s \<and> 0 \<le> s \<and> s \<le> 7 \<and> s \<le> int (length ms)"
    if "int (length ms) \<le> MAX_MINIMA mc" "min 7 (length ms) \<le> length (filter selectable ms)"
  proof -
    have "\<not> length (filter selectable ms) < min 7 (length ms)" using that(2) by linarith
    from minima_score_range [OF this] show ?thesis using under [OF that(1)] by simp
  qed
  show ?thesis using over none some by blast
qed

text \<open>
  Claim C10.  In the build with \<^verbatim>\<open>MINIMA_TEST\<close> and with \<open>Nplot > 0\<close>, let \<open>ms\<close> be the
  values \<open>V_old[1] + delta_V[0]\<close> recorded for the minima that the loop of \<^verbatim>\<open>chi2one\<close>
  meets, all of them above \<open>-1e30\<close>, the start value of the scan for the deepest minimum
  (magnitudes are of the order of 25).  If there are more than \<open>MAX_MINIMA\<close> minima the
  function returns \<open>-1\<close>; otherwise it returns an integer score from \<open>0\<close> to \<open>7\<close>, at
  most the number of minima, so \<open>0\<close> when there is none.
\<close>

theorem C10_minima_score:
  fixes mc :: macros and params delta_V d_Vmod0 :: "real list" and sData :: "obs_data list"
    and N_data N_filters Nplot :: int and sTypes :: stypes
  defines "mags \<equiv> Vmod_at mc (chi2_setup mc params sTypes) sData"
  defines "ms \<equiv> tracked_minima sData mags (delta_V ! 0) (nat N_data)"
  defines "r \<equiv> fst (chi2one mc params sData N_data N_filters delta_V Nplot sTypes d_Vmod0)"
  assumes mt: "MINIMA_TEST mc" and plot: "Nplot > 0" and cap: "0 \<le> MAX_MINIMA mc"
      and vals: "\<forall>v\<in>set ms. - (10 ^ 30) < v"
  shows "(int (length ms) > MAX_MINIMA mc \<longrightarrow> r = - 1)
       \<and> (int (length ms) \<le> MAX_MINIMA mc \<longrightarrow>
            (\<exists>s. r = real_of_int s \<and> 0 \<le> s \<and> s \<le> 7 \<and> s \<le> int (length ms)))"
proof -
  have "filter selectable ms = ms" using vals by (simp add: selectable_def)
  then have "min 7 (length ms) \<le> length (filter selectable ms)" by simp
  then show ?thesis
    using minima_result [where mc = mc and params = params and sTypes = sTypes
        and sData = sData and delta_V = delta_V and N_data = N_data and N_filters = N_filters
        and Nplot = Nplot and ?d_Vmod0.0 = d_Vmod0, OF mt plot cap]
    unfolding ms_def mags_def r_def by blast
qed

text \<open>
  A run with minima: for the body \<open>still_params\<close> the right-hand side of the equations of
  motion is zero, the Euler angles stay \<open>(0, 0, 0)\<close>, and the model magnitude of a data
  point \<open>phase_obs s t\<close> is \<open>-2.5 * log10 (s * phase_factor / 8)\<close>.  In \<open>dips\<close> the second
  and the fourth point are minima of the brightness.
\<close>

lemma ODE_func_still: "ODE_func y (0, p, m) = (0, 0, 0)"
  by (cases y) simp

lemma rk4_step_still: "rk4_step h (0, p, m) y = y"
  by (cases y) (simp add: rk4_step_def ODE_func_still)

lemma rk4_integrate_still: "rk4_integrate mc (0, p, m) t1 t2 y = y"
proof -
  have "((rk4_step h (0, p, m)) ^^ n) y = y" for h n
    by (induction n) (simp_all add: rk4_step_still)
  then show ?thesis by (simp add: rk4_integrate_def)
qed

lemma euler_at_still:
  assumes "cmu k = (0, p, m)"
  shows "euler_at mc k sData i = cE0 k"
  by (induction i) (simp_all add: assms rk4_integrate_still)

lemma still_axes:
  "body_axes (0, 0, 1) (1, 0, (0, 1, 0)) (0, 0, 0) = ((0, 0, 1), (1, 0, 0), (0, 1, 0))"
  by (simp add: body_axes_def Let_def)

lemma tan_pi8: "0 < tan (pi / 8)" "tan (pi / 8) < 1"
proof -
  show "0 < tan (pi / 8)" by (rule tan_gt_zero) simp_all
  have "tan (pi / 8) < tan (pi / 4)"
    by (rule tan_monotone) simp_all
  then show "tan (pi / 8) < 1" by (simp add: tan_45)
qed

lemma tan_pi8_eq: "tan (pi / 8) = sqrt 2 - 1"
proof -
  have "tan (pi / 8) = sin (pi / 4) / (cos (pi / 4) + 1)"
    using tan_half [of "pi / 8"] by simp
  also have "\<dots> = (sqrt 2 / 2) / (sqrt 2 / 2 + 1)" by (simp add: sin_45 cos_45)
  also have "\<dots> = sqrt 2 - 1"
  proof -
    have r: "sqrt 2 * sqrt 2 = 2" by simp
    have "(x - 1) * (x / 2 + 1) = x * x / 2 + x / 2 - 1" for x :: real
      by (simp add: field_simps)
    then have "(sqrt 2 - 1) * (sqrt 2 / 2 + 1) = sqrt 2 * sqrt 2 / 2 + sqrt 2 / 2 - 1" .
    then have "(sqrt 2 - 1) * (sqrt 2 / 2 + 1) = sqrt 2 / 2"
      unfolding r by simp
    moreover have "0 < sqrt 2 / 2 + 1"
      by (intro add_pos_pos) simp_all
    ultimately show ?thesis
      by (metis nonzero_mult_div_cancel_right less_numeral_extra(3))
  qed
  finally show ?thesis .
qed

lemma phase_factor_bounds: "0 < phase_factor" "phase_factor \<le> 1"
proof -
  define t where "t = tan (pi / 8)"
  have t: "0 < t" "t < 1" using tan_pi8 by (simp_all add: t_def)
  define q where "q = 1 / t / t"
  have q1: "1 \<le> q"
  proof -
    have "t * t \<le> 1 * 1" using t by (intro mult_mono) simp_all
    then show ?thesis using t by (simp add: q_def field_simps)
  qed
  have s2: "0 < sqrt 2" by simp
  have L0: "0 \<le> ln q" using q1 by simp
  then show "phase_factor \<le> 1"
    unfolding phase_factor_def t_def [symmetric] q_def [symmetric] using s2
    by (simp add: field_simps)
  have tq: "t = sqrt 2 - 1" unfolding t_def by (rule tan_pi8_eq)
  have "q * (t * t) = 1" using t by (simp add: q_def)
  moreover have "(3 + 2 * sqrt 2) * (t * t) = 1"
  proof -
    have r: "sqrt 2 * sqrt 2 = 2" by simp
    have "(3 + 2 * x) * ((x - 1) * (x - 1)) = (2 * x - 1) * (x * x) - 4 * x + 3" for x :: real
      by (simp add: algebra_simps)
    then have "(3 + 2 * sqrt 2) * ((sqrt 2 - 1) * (sqrt 2 - 1))
            = (2 * sqrt 2 - 1) * (sqrt 2 * sqrt 2) - 4 * sqrt 2 + 3" .
    then show ?thesis unfolding tq r by simp
  qed
  ultimately have "q * (t * t) = (3 + 2 * sqrt 2) * (t * t)" by simp
  moreover have "t * t \<noteq> 0" using t by simp
  ultimately have qv: "q = 3 + 2 * sqrt 2" by (simp only: mult_cancel_right) simp
  have "1 + 2 * sqrt 2 + (2 * sqrt 2)\<^sup>2 / 2 \<le> exp (2 * sqrt 2)"
    by (rule exp_lower_Taylor_quadratic) simp
  moreover have "(2 * sqrt 2)\<^sup>2 = 8" by (simp add: power2_eq_square)
  ultimately have "q < exp (2 * sqrt 2)" unfolding qv by simp
  then have "ln q < ln (exp (2 * sqrt 2))" using q1 by (subst ln_less_cancel_iff) simp_all
  then have "ln q < 2 * sqrt 2" by simp
  then show "0 < phase_factor"
    unfolding phase_factor_def t_def [symmetric] q_def [symmetric] using s2
    by (simp add: field_simps)
qed

lemma Vmod_right_angle:
  assumes b: "0 < b" and c: "0 < c" and s: "0 < s"
    and d: "obsE_x d = s * b" "obsE_y d = 0" "obsE_z d = 0"
           "obsS_x d = 0" "obsS_y d = 0" "obsS_z d = s"
  shows "Vmod_of b c ((0, 0, 1), (1, 0, 0), (0, 1, 0)) d = - 2.5 * log10 (b * c * s * phase_factor)"
proof -
  have e: "s * b * (s * b) / (b * b) = s * s" using b by simp
  have ss: "sqrt (s * s) = s" using s by simp
  have sc: "sqrt (s * s + s * s) = s * sqrt 2"
  proof -
    have "sqrt (s * s + s * s) = sqrt (s * s * 2)" by simp
    also have "\<dots> = sqrt (s * s) * sqrt 2" by (rule real_sqrt_mult)
    finally show ?thesis by (simp only: ss)
  qed
  have at1: "atan2 1 0 = pi / 2" by (simp add: atan2_def)
  have r2: "0 < 1 / sqrt 2" by simp
  have at2: "atan2 (1 / sqrt 2) (1 / sqrt 2) = pi / 4"
    using r2 by (simp add: atan2_def arctan_one)
  have cl: "(s + s * 0) / (s * sqrt 2) = 1 / sqrt 2" using s by simp
  have sl: "s * 1 / (s * sqrt 2) = 1 / sqrt 2" using s by simp
  have c4: "cos (pi / 4 - pi / 2) = 1 / sqrt 2"
  proof -
    have "pi / 4 - pi / 2 = - (pi / 4)" by simp
    then show ?thesis by (simp add: cos_45 real_div_sqrt)
  qed
  have s4: "sin (pi / 4 - pi / 2) = - (1 / sqrt 2)"
  proof -
    have "pi / 4 - pi / 2 = - (pi / 4)" by simp
    then show ?thesis by (simp add: sin_45 real_div_sqrt)
  qed
  have h1: "5 / 10 * (pi / 4) = pi / 8" and h2: "5 / 10 * (pi / 2 - pi / 4) = pi / 8" by simp_all
  have sl2: "s / (s * sqrt 2) = 1 / sqrt 2" using s by simp
  define L where "L = ln (1 / tan (pi / 8) / tan (pi / 8))"
  have V: "Vmod_of b c ((0, 0, 1), (1, 0, 0), (0, 1, 0)) d =
        - 2.5 * log10 (b * c * s * s / (s * sqrt 2)
              * (1 / sqrt 2 + 1 / sqrt 2 + 1 / sqrt 2 * (- (1 / sqrt 2)) * L))"
    unfolding Vmod_of_def Let_def prod.case d L_def
    by (simp only: mult_zero_left mult_zero_right mult_1 mult_1_right add_0_left add_0_right
        div_0 e ss sc sl2 at1 at2 cl sl c4 s4 h1 h2 real_sqrt_zero diff_zero
        real_sqrt_one mult_1_left)
  have "b * c * s * s / (s * sqrt 2)
              * (1 / sqrt 2 + 1 / sqrt 2 + 1 / sqrt 2 * (- (1 / sqrt 2)) * L)
        = b * c * s * phase_factor"
  proof -
    define r where "r = sqrt 2"
    have r: "r * r = 2" and r0: "0 < r" by (simp_all add: r_def)
    have i2: "1 / r * (1 / r) = 1 / 2" using r by simp
    have i1: "1 / r + 1 / r = r"
    proof -
      have "1 / r + 1 / r = r * r / r" unfolding r by simp
      then show ?thesis using r0 by simp
    qed
    have "b * c * s * s / (s * r) * (1 / r + 1 / r + 1 / r * (- (1 / r)) * L)
            = b * c * s * (1 / r * (1 / r + 1 / r) - 1 / r * (1 / r * (1 / r)) * L)"
      using s r0 by (simp add: field_simps)
    also have "\<dots> = b * c * s * (1 / r * r - 1 / r * (1 / 2) * L)"
      unfolding i1 i2 ..
    also have "\<dots> = b * c * s * (1 - L / (2 * r))" using r0 by simp
    finally show ?thesis unfolding r_def phase_factor_def L_def .
  qed
  then show ?thesis using V by simp
qed

lemma still_setup_macros:
  assumes "T_c_tumb mc = 4" "T_b_tumb mc = 5" "T_Es mc = 6" "T_psi_0 mc = 7"
      "T_theta_M mc = 0" "T_phi_M mc = 1" "T_phi_0 mc = 2" "T_L mc = 3"
  shows "chi2_setup mc still_params demo_types =
     \<lparr> cM = (0, 0, 1), cF = (1, 0, (0, 1, 0)), cb = 1 / 2, cc = 1 / 4,
       cmu = (0, 0.5 * (5 / 17 + 1 / 4), 0.5 * (5 / 17 - 1 / 4)), cE0 = (0, 0, 0) \<rparr>"
  by (simp add: chi2_setup_def assms still_params_def demo_types_def Let_def
      M_vec_def inertial_frame_def)

lemma still_magnitude:
  assumes T: "T_c_tumb mc = 4" "T_b_tumb mc = 5" "T_Es mc = 6" "T_psi_0 mc = 7"
      "T_theta_M mc = 0" "T_phi_M mc = 1" "T_phi_0 mc = 2" "T_L mc = 3"
    and s: "0 < s" and d: "sData ! i = phase_obs s t"
  shows "Vmod_at mc (chi2_setup mc still_params demo_types) sData i
           = - 2.5 * log10 (s * phase_factor / 8)"
proof -
  define k where "k = chi2_setup mc still_params demo_types"
  have k: "cM k = (0, 0, 1)" "cF k = (1, 0, (0, 1, 0))" "cb k = 1 / 2" "cc k = 1 / 4"
    "cmu k = (0, 0.5 * (5 / 17 + 1 / 4), 0.5 * (5 / 17 - 1 / 4))" "cE0 k = (0, 0, 0)"
    unfolding k_def still_setup_macros [OF T] by simp_all
  have e: "euler_at mc k sData i = (0, 0, 0)"
    using euler_at_still [OF k(5)] k(6) by simp
  have "Vmod_at mc k sData i
          = Vmod_of (1 / 2) (1 / 4) ((0, 0, 1), (1, 0, 0), (0, 1, 0)) (phase_obs s t)"
    by (simp only: Vmod_at_def k e still_axes d)
  also have "\<dots> = - 2.5 * log10 (1 / 2 * (1 / 4) * s * phase_factor)"
    by (rule Vmod_right_angle) (simp_all add: s phase_obs_def)
  also have "1 / 2 * (1 / 4) * s * phase_factor = s * phase_factor / 8" by simp
  finally show ?thesis unfolding k_def .
qed

lemma dim_brighter: "- 2.5 * log10 (2 * phase_factor / 8) < - 2.5 * log10 (1 * phase_factor / 8)"
proof -
  have "log 10 (1 * phase_factor / 8) < log 10 (2 * phase_factor / 8)"
    using phase_factor_bounds(1) by (subst log_less_cancel_iff) simp_all
  then show ?thesis by (simp add: log10_def)
qed

lemma dim_selectable: "- (10 ^ 30) < - 2.5 * log10 (1 * phase_factor / 8) + 0"
proof -
  have "log 10 (1 * phase_factor / 8) \<le> 0"
    using phase_factor_bounds by (subst log_le_zero_cancel_iff) simp_all
  then have "0 \<le> - 2.5 * log10 (1 * phase_factor / 8)" by (simp add: log10_def)
  moreover have "- (10 ^ 30) < (0::real)" by simp
  ultimately show ?thesis by linarith
qed

lemma dips_tracked:
  assumes T: "T_c_tumb mc = 4" "T_b_tumb mc = 5" "T_Es mc = 6" "T_psi_0 mc = 7"
      "T_theta_M mc = 0" "T_phi_M mc = 1" "T_phi_0 mc = 2" "T_L mc = 3"
  shows "tracked_minima dips (Vmod_at mc (chi2_setup mc still_params demo_types) dips) 0 5
           = [- 2.5 * log10 (1 * phase_factor / 8) + 0, - 2.5 * log10 (1 * phase_factor / 8) + 0]"
proof -
  define mags where "mags = Vmod_at mc (chi2_setup mc still_params demo_types) dips"
  define A where "A = - 2.5 * log10 (2 * phase_factor / 8)"
  define B where "B = - 2.5 * log10 (1 * phase_factor / 8)"
  have AB: "A < B" unfolding A_def B_def by (rule dim_brighter)
  have d: "dips ! 0 = phase_obs 2 0" "dips ! 1 = phase_obs 1 (1 / 100)"
    "dips ! 2 = phase_obs 2 (2 / 100)" "dips ! 3 = phase_obs 1 (3 / 100)"
    "dips ! 4 = phase_obs 2 (4 / 100)"
    by (simp_all add: dips_def)
  have m: "mags 0 = A" "mags 1 = B" "mags 2 = A" "mags 3 = B" "mags 4 = A"
    unfolding mags_def A_def B_def
    by (rule still_magnitude [OF T _ d(1)], simp,
        rule still_magnitude [OF T _ d(2)], simp,
        rule still_magnitude [OF T _ d(3)], simp,
        rule still_magnitude [OF T _ d(4)], simp,
        rule still_magnitude [OF T _ d(5)], simp)
  have t: "obsMJD (dips ! 1) = 1 / 100" "obsMJD (dips ! 3) = 3 / 100"
    by (simp_all add: dips_def phase_obs_def)
  have c: "covered (58051.044624 + obsMJD (dips ! 1))" "covered (58051.044624 + obsMJD (dips ! 3))"
    unfolding t by (simp_all add: covered_def)
  have m1: "mags (Suc 0) = B" using m(2) by simp
  have t2: "minimum_at dips mags 2" using AB c by (simp add: minimum_at_def m m1)
  have t3: "\<not> minimum_at dips mags 3" using AB by (simp add: minimum_at_def m)
  have t4: "minimum_at dips mags 4" using AB c by (simp add: minimum_at_def m)
  have u: "[2..<5] = [2, 3, 4::nat]" by (simp add: numeral_eq_Suc upt_rec)
  have "tracked_minima dips mags 0 5 = [B + 0, B + 0]"
    unfolding tracked_minima_def u using t2 t3 t4 by (simp add: m m1)
  then show ?thesis unfolding mags_def B_def .
qed

lemma minima_macros_codes:
  "T_c_tumb minima_macros = 4" "T_b_tumb minima_macros = 5" "T_Es minima_macros = 6"
  "T_psi_0 minima_macros = 7" "T_theta_M minima_macros = 0" "T_phi_M minima_macros = 1"
  "T_phi_0 minima_macros = 2" "T_L minima_macros = 3"
  by (simp_all add: minima_macros_def demo_macros_def)

lemma tight_macros_codes:
  "T_c_tumb tight_macros = 4" "T_b_tumb tight_macros = 5" "T_Es tight_macros = 6"
  "T_psi_0 tight_macros = 7" "T_theta_M tight_macros = 0" "T_phi_M tight_macros = 1"
  "T_phi_0 tight_macros = 2" "T_L tight_macros = 3"
  by (simp_all add: tight_macros_def minima_macros_def demo_macros_def)

theorem C10_minima_score_witness:
  "MINIMA_TEST minima_macros \<and> (0::int) < 1 \<and> 0 \<le> MAX_MINIMA minima_macros
   \<and> length (tracked_minima dips
        (Vmod_at minima_macros (chi2_setup minima_macros still_params demo_types) dips)
        ([0] ! 0) (nat 5)) = 2
   \<and> list_all (\<lambda>v. - (10 ^ 30) < v) (tracked_minima dips
        (Vmod_at minima_macros (chi2_setup minima_macros still_params demo_types) dips)
        ([0] ! 0) (nat 5))
   \<and> (\<exists>s. fst (chi2one minima_macros still_params dips 5 1 [0] 1 demo_types []) = real_of_int s
          \<and> 0 \<le> s \<and> s \<le> 2)
   \<and> fst (chi2one tight_macros still_params dips 5 1 [0] 1 demo_types []) = - 1"
proof -
  define B where "B = - 2.5 * log10 (1 * phase_factor / 8) + 0"
  have B: "- (10 ^ 30) < B" unfolding B_def by (rule dim_selectable)
  have n: "nat 5 = 5" "[0::real] ! 0 = 0" by simp_all
  have ms: "tracked_minima dips
        (Vmod_at minima_macros (chi2_setup minima_macros still_params demo_types) dips)
        ([0] ! 0) (nat 5) = [B, B]"
    unfolding n B_def by (rule dips_tracked [OF minima_macros_codes])
  have ms': "tracked_minima dips
        (Vmod_at tight_macros (chi2_setup tight_macros still_params demo_types) dips)
        ([0] ! 0) (nat 5) = [B, B]"
    unfolding n B_def by (rule dips_tracked [OF tight_macros_codes])
  have m: "MINIMA_TEST minima_macros" "MAX_MINIMA minima_macros = 20"
    by (simp_all add: minima_macros_def demo_macros_def)
  have m': "MINIMA_TEST tight_macros" "MAX_MINIMA tight_macros = 1"
    by (simp_all add: tight_macros_def minima_macros_def demo_macros_def)
  have p: "(0::int) < 1" by simp
  have cap: "0 \<le> MAX_MINIMA minima_macros" "0 \<le> MAX_MINIMA tight_macros"
    by (simp_all add: m m')
  have vals: "\<forall>v\<in>set (tracked_minima dips
        (Vmod_at minima_macros (chi2_setup minima_macros still_params demo_types) dips)
        ([0] ! 0) (nat 5)). - (10 ^ 30) < v"
    unfolding ms using B by simp
  have vals': "\<forall>v\<in>set (tracked_minima dips
        (Vmod_at tight_macros (chi2_setup tight_macros still_params demo_types) dips)
        ([0] ! 0) (nat 5)). - (10 ^ 30) < v"
    unfolding ms' using B by simp
  note c = C10_minima_score [where mc = minima_macros and params = still_params and sData = dips
      and N_data = 5 and N_filters = 1 and delta_V = "[0]" and Nplot = 1
      and sTypes = demo_types and ?d_Vmod0.0 = "[]", OF m(1) p cap(1) vals]
  note c' = C10_minima_score [where mc = tight_macros and params = still_params and sData = dips
      and N_data = 5 and N_filters = 1 and delta_V = "[0]" and Nplot = 1
      and sTypes = demo_types and ?d_Vmod0.0 = "[]", OF m'(1) p cap(2) vals']
  have s: "\<exists>s. fst (chi2one minima_macros still_params dips 5 1 [0] 1 demo_types []) = real_of_int s
          \<and> 0 \<le> s \<and> s \<le> 2"
    using c unfolding ms m(2) by auto
  have o: "fst (chi2one tight_macros still_params dips 5 1 [0] 1 demo_types []) = - 1"
    using c' unfolding ms' m'(2) by simp
  have l: "list_all (\<lambda>v. - (10 ^ 30) < v) [B, B]" using B by simp
  show ?thesis using m(1) p cap(1) s o l unfolding ms by simp
qed

end
